theory Spec2Isabelle
  imports Main "HOL-Library.Word" "HOL-Library.AList" "HOL-Library.Product_Lexorder"
begin

section \<open>The log DB of tugboat-logdb (package pebble, type db)\<close>

text \<open>
  A shallow embedding of the methods of \<^verbatim>\<open>db\<close> (the per-shard log DB). The pointer
  receiver \<^verbatim>\<open>r *db\<close> becomes a record that every method takes and returns; the write
  batch and the per-thread context are passed and returned explicitly. A Go function
  that returns an \<^verbatim>\<open>error\<close> returns a \<open>result\<close>: \<open>Ok\<close> for a nil error, \<open>Err\<close> for a
  returned error, \<open>Panic\<close> when the process aborts.
\<close>

subsection \<open>Data: the protobuf messages used by the log DB\<close>

type_synonym u64 = "64 word"

text \<open>\<^verbatim>\<open>pb.State\<close>: the persistent Raft state.\<close>

record State =
  st_Term :: u64
  st_Vote :: u64
  st_Commit :: u64

text \<open>\<^verbatim>\<open>pb.Entry\<close>: a log entry (index, term, payload).\<close>

record Entry =
  e_Index :: u64
  e_Term :: u64
  e_Cmd :: "8 word list"

text \<open>\<^verbatim>\<open>pb.Snapshot\<close>: snapshot metadata (the fields the log DB reads, and the path).\<close>

record Snapshot =
  ss_Index :: u64
  ss_Term :: u64
  ss_Filepath :: string

text \<open>\<^verbatim>\<open>pb.Bootstrap\<close>.\<close>

record Bootstrap =
  bs_Join :: bool
  bs_Type :: u64

text \<open>\<^verbatim>\<open>pb.Update\<close>: what one replica asks to persist.\<close>

record Update =
  ud_ClusterID :: u64
  ud_NodeID :: u64
  ud_State :: State
  ud_EntriesToSave :: "Entry list"
  ud_Snapshot :: Snapshot

definition emptyState :: State where
  "emptyState = \<lparr>st_Term = 0, st_Vote = 0, st_Commit = 0\<rparr>"

definition emptySnapshot :: Snapshot where
  "emptySnapshot = \<lparr>ss_Index = 0, ss_Term = 0, ss_Filepath = []\<rparr>"

text \<open>\<^verbatim>\<open>pb.IsEmptyState\<close>: term, vote and commit are all zero.\<close>

definition IsEmptyState :: "State \<Rightarrow> bool" where
  "IsEmptyState st = (st_Term st = 0 \<and> st_Vote st = 0 \<and> st_Commit st = 0)"

text \<open>\<^verbatim>\<open>pb.IsEmptySnapshot\<close>: the snapshot index is zero.\<close>

definition IsEmptySnapshot :: "Snapshot \<Rightarrow> bool" where
  "IsEmptySnapshot ss = (ss_Index ss = 0)"

subsection \<open>Errors and results\<close>

datatype error =
    ErrNoSavedLog
  | ErrNoBootstrapInfo
  | ErrStorageIO
  | ErrWrapped error

datatype panic =
    MaxIndexNotHandled u64 u64
  | NilContext
  | CorruptRecord

datatype 'a result = Ok 'a | Err error | Panic panic

text \<open>\<^verbatim>\<open>errors.Wrapf\<close>: nil stays nil, an error is wrapped.\<close>

definition Wrapf :: "'a result \<Rightarrow> 'a result" where
  "Wrapf r = (case r of Err e \<Rightarrow> Err (ErrWrapped e) | _ \<Rightarrow> r)"

subsection \<open>Keys, values and the write batch\<close>

text \<open>
  Modelled from the spec: the key codec (key.go) is missing. Section 3 and 4.1 of the
  spec: one key-space partition per record kind, distinguished by a leading type tag;
  the mapping from (kind, replica identity, optional index) to bytes is injective, and
  the integers are big-endian fixed-width, so that the byte order of two keys is the
  lexicographic order of (tag, group, member, index). A key is its decoded form;
  \<open>key_code\<close> is what the byte order compares.
\<close>

datatype key =
    EntryKey u64 u64 u64
  | StateKey u64 u64
  | MaxIndexKey u64 u64
  | SnapshotKey u64 u64 u64
  | BootstrapKey u64 u64

fun key_code :: "key \<Rightarrow> nat \<times> u64 \<times> u64 \<times> u64" where
  "key_code (EntryKey c n i) = (1, c, n, i)"
| "key_code (StateKey c n) = (2, c, n, 0)"
| "key_code (MaxIndexKey c n) = (3, c, n, 0)"
| "key_code (SnapshotKey c n i) = (4, c, n, i)"
| "key_code (BootstrapKey c n) = (5, c, n, 0)"

text \<open>
  A stored value is the message that was marshalled into it (\<^verbatim>\<open>pb.MustMarshal\<close> and
  \<^verbatim>\<open>binary.BigEndian.PutUint64\<close> are injective); unmarshalling a value of
  another kind is the panic \<open>CorruptRecord\<close>. Section 3 of the spec: the value under
  an entry key is one serialized log record, or a batch of records (batched format).
\<close>

datatype val =
    EntryVal Entry
  | EntryBatchVal "Entry list"
  | StateVal State
  | MaxIndexVal u64
  | SnapshotVal Snapshot
  | BootstrapVal Bootstrap

text \<open>
  Modelled from the spec: \<^verbatim>\<open>pebbleWriteBatch\<close> (kv_pebble.go) is missing. Glossary of the
  spec: a write batch is a set of mutations committed atomically against the storage
  engine; section 6: the mutations are point puts and deletes. The batch is the list
  of the staged mutations, in the order they were staged: \<^verbatim>\<open>wb.Put\<close> and
  \<^verbatim>\<open>wb.Delete\<close> append one, \<^verbatim>\<open>wb.Count()\<close> is how many are staged.
\<close>

datatype wbop = Put key val | Delete key

type_synonym pebbleWriteBatch = "wbop list"

definition Count :: "pebbleWriteBatch \<Rightarrow> nat" where
  "Count wb = length wb"

subsection \<open>The storage engine (type KV)\<close>

text \<open>
  Modelled from the spec: the wrapper of the embedded key-value engine (kv_pebble.go,
  type \<^verbatim>\<open>KV\<close>) is missing. Section 6 of the spec: point get, point put and delete,
  atomic multi-key write-batch commit, forward-ordered range iteration, bulk range
  delete; section 7: an engine call may fail with a storage I/O error, which is
  propagated. The engine is the association list of its records, a schedule of faults
  (each engine call takes the head of the schedule: \<open>None\<close> or no head means the call
  succeeds) and the trace of the calls made so far.
\<close>

datatype kvcall =
    CallGet key
  | CallIterate key key bool
  | CallCommit pebbleWriteBatch
  | CallBulkRemove key key

record KV =
  store :: "(key \<times> val) list"
  faults :: "error option list"
  calls :: "kvcall list"

text \<open>
  Modelled from the spec: one call of the engine. It is added to the trace and takes
  the head of the fault schedule.
\<close>

definition engine_call :: "kvcall \<Rightarrow> KV \<Rightarrow> error option \<times> KV" where
  "engine_call c kv =
     (case faults kv of
        [] \<Rightarrow> (None, kv\<lparr>calls := calls kv @ [c]\<rparr>)
      | f # fs \<Rightarrow> (f, kv\<lparr>faults := fs, calls := calls kv @ [c]\<rparr>))"

text \<open>
  Modelled from the spec: applying the mutations of a batch to the records, a put
  replacing the record under its key and a delete removing it.
\<close>

fun apply_op :: "(key \<times> val) list \<Rightarrow> wbop \<Rightarrow> (key \<times> val) list" where
  "apply_op s (Put k v) = AList.update k v s"
| "apply_op s (Delete k) = AList.delete k s"

definition apply_batch :: "pebbleWriteBatch \<Rightarrow> (key \<times> val) list \<Rightarrow> (key \<times> val) list" where
  "apply_batch wb s = foldl apply_op s wb"

text \<open>
  Modelled from the spec: \<^verbatim>\<open>CommitWriteBatch\<close>, the atomic multi-key write-batch commit
  of section 6. A failed commit applies nothing, a successful one applies every staged
  mutation, in order.
\<close>

definition CommitWriteBatch :: "KV \<Rightarrow> pebbleWriteBatch \<Rightarrow> unit result \<times> KV" where
  "CommitWriteBatch kv wb =
     (case engine_call (CallCommit wb) kv of
        (Some e, kv') \<Rightarrow> (Err e, kv')
      | (None, kv') \<Rightarrow> (Ok (), kv'\<lparr>store := apply_batch wb (store kv')\<rparr>))"

text \<open>
  Modelled from the spec: \<^verbatim>\<open>GetValue(key, op)\<close>, the point get of section 6. A failed
  read returns its error; otherwise \<open>op\<close> is called with the stored value, or with no
  data when there is no record under the key (section 7: the "no rows found" case is
  not an error of the engine; the callers translate it).
\<close>

definition GetValue :: "KV \<Rightarrow> key \<Rightarrow> (val option \<Rightarrow> 'a result) \<Rightarrow> 'a result \<times> KV" where
  "GetValue kv k op =
     (case engine_call (CallGet k) kv of
        (Some e, kv') \<Rightarrow> (Err e, kv')
      | (None, kv') \<Rightarrow> (op (map_of (store kv') k), kv'))"

text \<open>
  Modelled from the spec: the keys of a range scan from \<open>fk\<close> to \<open>lk\<close>, in the byte
  order of the keys; \<open>inc\<close> says whether \<open>lk\<close> itself belongs to the range.
\<close>

definition in_range :: "key \<Rightarrow> key \<Rightarrow> bool \<Rightarrow> key \<Rightarrow> bool" where
  "in_range fk lk inc k =
     (key_code fk \<le> key_code k \<and>
      (if inc then key_code k \<le> key_code lk else key_code k < key_code lk))"

text \<open>
  Modelled from the spec: the loop of \<^verbatim>\<open>IterateValue\<close>. \<open>op\<close> is called on each
  record in turn, with the variables its closure captures as an accumulator; it
  answers whether to continue, or fails.
\<close>

fun iterate_records ::
  "(key \<Rightarrow> val \<Rightarrow> 'a \<Rightarrow> bool result \<times> 'a) \<Rightarrow> (key \<times> val) list \<Rightarrow> 'a \<Rightarrow> unit result \<times> 'a" where
  "iterate_records op [] acc = (Ok (), acc)"
| "iterate_records op ((k, v) # rs) acc =
     (case op k v acc of
        (Ok True, acc') \<Rightarrow> iterate_records op rs acc'
      | (Ok False, acc') \<Rightarrow> (Ok (), acc')
      | (Err e, acc') \<Rightarrow> (Err e, acc')
      | (Panic p, acc') \<Rightarrow> (Panic p, acc'))"

text \<open>
  Modelled from the spec: \<^verbatim>\<open>IterateValue(fk, lk, inc, op)\<close>, the forward-ordered range
  iteration of section 6, over the records with a key from \<open>fk\<close> up to \<open>lk\<close> (\<open>lk\<close>
  itself only when \<open>inc\<close>), in ascending key order.
\<close>

definition IterateValue ::
  "KV \<Rightarrow> key \<Rightarrow> key \<Rightarrow> bool \<Rightarrow> (key \<Rightarrow> val \<Rightarrow> 'a \<Rightarrow> bool result \<times> 'a) \<Rightarrow> 'a
     \<Rightarrow> (unit result \<times> 'a) \<times> KV" where
  "IterateValue kv fk lk inc op acc =
     (case engine_call (CallIterate fk lk inc) kv of
        (Some e, kv') \<Rightarrow> ((Err e, acc), kv')
      | (None, kv') \<Rightarrow>
          (iterate_records op
             (sort_key (\<lambda>r. key_code (fst r)) (filter (\<lambda>r. in_range fk lk inc (fst r)) (store kv')))
             acc,
           kv'))"

text \<open>
  Modelled from the spec: \<^verbatim>\<open>BulkRemoveEntries(fk, lk)\<close>, the bulk range delete of
  section 6. Section 4.4 has the ranged operation discard all entries at or below the
  index of \<open>lk\<close>, so both boundaries belong to the range. A failed call removes
  nothing.
\<close>

definition BulkRemoveEntries :: "KV \<Rightarrow> key \<Rightarrow> key \<Rightarrow> unit result \<times> KV" where
  "BulkRemoveEntries kv fk lk =
     (case engine_call (CallBulkRemove fk lk) kv of
        (Some e, kv') \<Rightarrow> (Err e, kv')
      | (None, kv') \<Rightarrow>
          (Ok (), kv'\<lparr>store := filter (\<lambda>r. \<not> in_range fk lk True (fst r)) (store kv')\<rparr>))"

subsection \<open>The replica cache (type cache)\<close>

text \<open>
  Modelled from the spec: cache.go is missing. Section 4.3 of the spec: per replica
  identity, the last known max entry index, the last persisted state and the last
  persisted snapshot index.
\<close>

type_synonym replica = "u64 \<times> u64"

record cache =
  c_maxIndex :: "replica \<Rightarrow> u64 option"
  c_ps :: "replica \<Rightarrow> State option"
  c_snapshotIndex :: "replica \<Rightarrow> u64 option"

text \<open>Modelled from the spec: the cache of a freshly opened log DB knows no replica.\<close>

definition newCache :: cache where
  "newCache = \<lparr>c_maxIndex = (\<lambda>_. None), c_ps = (\<lambda>_. None), c_snapshotIndex = (\<lambda>_. None)\<rparr>"

text \<open>Modelled from the spec: \<open>getMaxIndex(id) -> (index, found)\<close>, a lookup.\<close>

definition cache_getMaxIndex :: "cache \<Rightarrow> u64 \<Rightarrow> u64 \<Rightarrow> u64 option" where
  "cache_getMaxIndex cs c n = c_maxIndex cs (c, n)"

text \<open>Modelled from the spec: \<open>setMaxIndex(id, index)\<close>, an unconditional overwrite.\<close>

definition cache_setMaxIndex :: "cache \<Rightarrow> u64 \<Rightarrow> u64 \<Rightarrow> u64 \<Rightarrow> cache" where
  "cache_setMaxIndex cs c n index = cs\<lparr>c_maxIndex := (c_maxIndex cs)((c, n) \<mapsto> index)\<rparr>"

text \<open>
  Modelled from the spec: \<open>setState(id, state) -> changed\<close> returns true and updates
  the cache only if the state differs from the cached value (or none is cached).
\<close>

definition cache_setState :: "cache \<Rightarrow> u64 \<Rightarrow> u64 \<Rightarrow> State \<Rightarrow> bool \<times> cache" where
  "cache_setState cs c n st =
     (if c_ps cs (c, n) = Some st then (False, cs)
      else (True, cs\<lparr>c_ps := (c_ps cs)((c, n) \<mapsto> st)\<rparr>))"

text \<open>
  Modelled from the spec: \<open>trySaveSnapshot(id, index) -> accepted\<close> returns true and
  records \<open>index\<close> only if it is strictly greater than the recorded value (0 if
  absent); otherwise it returns false without mutation.
\<close>

definition cache_trySaveSnapshot :: "cache \<Rightarrow> u64 \<Rightarrow> u64 \<Rightarrow> u64 \<Rightarrow> bool \<times> cache" where
  "cache_trySaveSnapshot cs c n index =
     (if (case c_snapshotIndex cs (c, n) of None \<Rightarrow> 0 | Some v \<Rightarrow> v) < index
      then (True, cs\<lparr>c_snapshotIndex := (c_snapshotIndex cs)((c, n) \<mapsto> index)\<rparr>)
      else (False, cs))"

text \<open>
  Modelled from the spec: \<open>setSnapshotIndex\<close> (cache.go) is missing too. It is called
  by \<^verbatim>\<open>getSnapshot\<close>; section 4.3 names the field it sets (the last persisted snapshot
  index) and not the operation, which is taken, like \<open>setMaxIndex\<close>, as an
  unconditional overwrite.
\<close>

definition cache_setSnapshotIndex :: "cache \<Rightarrow> u64 \<Rightarrow> u64 \<Rightarrow> u64 \<Rightarrow> cache" where
  "cache_setSnapshotIndex cs c n index =
     cs\<lparr>c_snapshotIndex := (c_snapshotIndex cs)((c, n) \<mapsto> index)\<rparr>"

subsection \<open>The context and the entry manager\<close>

text \<open>
  \<^verbatim>\<open>IContext\<close>: the per-thread context. Its keys and value buffers are scratch
  memory (the batch copies what is put); what it holds across calls is the write batch.
  A nil context is \<open>None\<close>.
\<close>

record IContext =
  ctx_wb :: "pebbleWriteBatch option"

text \<open>
  \<^verbatim>\<open>entryManager\<close>: the interface of the entry encodings, as the record of its
  methods (\<^verbatim>\<open>getRange\<close> is left out). \<open>em_record\<close> stages entries into the batch and
  returns the max index staged; \<open>em_iterate\<close> reads a range of entries;
  \<open>em_rangedOp\<close> hands the key range of the entries up to an index to the operation
  it is given. An entry manager holds pointers to the cache and to the engine of its
  log DB; here the methods that use the engine take it and return it.
  \<^verbatim>\<open>binaryFormat()\<close> returns the identifier of the encoding; the identifiers are
  constants of another repository, and section 4.4 of the spec has two encodings,
  plain and batched, which are the two values of \<open>entryFormat\<close>.
\<close>

datatype entryFormat = PlainFormat | BatchedFormat

record entryManager =
  em_binaryFormat :: entryFormat
  em_record :: "pebbleWriteBatch \<Rightarrow> u64 \<Rightarrow> u64 \<Rightarrow> IContext option \<Rightarrow> Entry list
                  \<Rightarrow> u64 \<times> pebbleWriteBatch"
  em_iterate :: "KV \<Rightarrow> Entry list \<Rightarrow> u64 \<Rightarrow> u64 \<Rightarrow> u64 \<Rightarrow> u64 \<Rightarrow> u64 \<Rightarrow> u64 \<Rightarrow> u64
                  \<Rightarrow> (Entry list \<times> u64) result \<times> KV"
  em_rangedOp :: "u64 \<Rightarrow> u64 \<Rightarrow> u64 \<Rightarrow> (key \<Rightarrow> key \<Rightarrow> KV \<Rightarrow> unit result \<times> KV) \<Rightarrow> KV
                  \<Rightarrow> unit result \<times> KV"

text \<open>
  Modelled from the spec: plain.go (\<^verbatim>\<open>newPlainEntries\<close>) is missing. Section 4.4 of
  the spec, plain variant: one record per entry, keyed by its own index.
  \<open>record\<close> stages the entries and returns the highest staged index, 0 if nothing was
  staged.
\<close>

fun plain_record ::
  "pebbleWriteBatch \<Rightarrow> u64 \<Rightarrow> u64 \<Rightarrow> IContext option \<Rightarrow> Entry list \<Rightarrow> u64 \<times> pebbleWriteBatch" where
  "plain_record wb c n ctx [] = (0, wb)"
| "plain_record wb c n ctx (e # es) =
     (let (mi, wb') = plain_record (wb @ [Put (EntryKey c n (e_Index e)) (EntryVal e)]) c n ctx es
      in (max (e_Index e) mi, wb'))"

text \<open>
  Modelled from the spec: the bytes an entry counts for in the budget of \<open>iterate\<close>.
  The spec does not fix the serialization; the size is taken as the payload and two
  fixed-width integers.
\<close>

definition entrySize :: "Entry \<Rightarrow> u64" where
  "entrySize e = of_nat (length (e_Cmd e)) + 16"

text \<open>
  Modelled from the spec: \<open>iterate\<close> of the plain variant (plain.go is missing)
  returns the entries in \<open>[low, min(high, maxIndex+1))\<close> in ascending index order,
  stopping before the size exceeds \<open>maxSize\<close>, but always returning at least one entry
  if any exists in the range. The accumulator is the entries so far, the size so far
  and whether no entry was taken yet.
\<close>

definition plain_iterate_op ::
  "u64 \<Rightarrow> key \<Rightarrow> val \<Rightarrow> Entry list \<times> u64 \<times> bool \<Rightarrow> bool result \<times> (Entry list \<times> u64 \<times> bool)" where
  "plain_iterate_op maxSize k v acc =
     (case acc of (ents, sz, first) \<Rightarrow>
       (case v of
          EntryVal e \<Rightarrow>
            if \<not> first \<and> maxSize < sz + entrySize e then (Ok False, acc)
            else (Ok True, (ents @ [e], sz + entrySize e, False))
        | _ \<Rightarrow> (Panic CorruptRecord, acc)))"

definition plain_iterate ::
  "KV \<Rightarrow> Entry list \<Rightarrow> u64 \<Rightarrow> u64 \<Rightarrow> u64 \<Rightarrow> u64 \<Rightarrow> u64 \<Rightarrow> u64 \<Rightarrow> u64
     \<Rightarrow> (Entry list \<times> u64) result \<times> KV" where
  "plain_iterate kv ents maxIndex sz c n low high maxSize =
     (case IterateValue kv (EntryKey c n low) (EntryKey c n (min high (maxIndex + 1))) False
             (plain_iterate_op maxSize) (ents, sz, True) of
        ((Ok _, (ents', sz', _)), kv') \<Rightarrow> (Ok (ents', sz'), kv')
      | ((Err e, _), kv') \<Rightarrow> (Err e, kv')
      | ((Panic p, _), kv') \<Rightarrow> (Panic p, kv'))"

text \<open>
  Modelled from the spec: \<open>rangedOp\<close> of the plain variant (plain.go is missing)
  computes the boundaries of the key range holding all entries at or below \<open>index\<close>
  and invokes the supplied operation on them.
\<close>

definition plain_rangedOp ::
  "u64 \<Rightarrow> u64 \<Rightarrow> u64 \<Rightarrow> (key \<Rightarrow> key \<Rightarrow> KV \<Rightarrow> unit result \<times> KV) \<Rightarrow> KV \<Rightarrow> unit result \<times> KV" where
  "plain_rangedOp c n index op kv = op (EntryKey c n 0) (EntryKey c n index) kv"

text \<open>Modelled from the spec: the plain entry manager, as \<^verbatim>\<open>newPlainEntries\<close> returns it.\<close>

definition newPlainEntries :: entryManager where
  "newPlainEntries =
     \<lparr>em_binaryFormat = PlainFormat, em_record = plain_record,
      em_iterate = plain_iterate, em_rangedOp = plain_rangedOp\<rparr>"

subsection \<open>The log DB (type db)\<close>

text \<open>
  \<^verbatim>\<open>type db struct\<close>. The key pool only recycles key buffers and is left out.
\<close>

record db =
  cs :: cache
  kvs :: KV
  entries :: entryManager

definition MaxUint64 :: u64 where
  "MaxUint64 = 0xFFFFFFFFFFFFFFFF"

text \<open>\<^verbatim>\<open>hasEntryRecord\<close>: whether the store holds any record under an entry key.\<close>

definition hasEntryRecord :: "KV \<Rightarrow> bool result \<times> KV" where
  "hasEntryRecord kv =
     (case IterateValue kv (EntryKey 0 0 0) (EntryKey MaxUint64 MaxUint64 MaxUint64) True
             (\<lambda>key data located. (Ok False, True)) False of
        ((Ok _, located), kv') \<Rightarrow> (Ok located, kv')
      | ((Err e, _), kv') \<Rightarrow> (Err e, kv')
      | ((Panic p, _), kv') \<Rightarrow> (Panic p, kv'))"

text \<open>
  \<^verbatim>\<open>openRDB\<close>. \<^verbatim>\<open>openPebbleDB\<close> (kv_pebble.go) is missing and is a parameter: what
  opening the engine on a directory returns. The configuration, the callback, the WAL
  directory and the file system only reach \<^verbatim>\<open>openPebbleDB\<close>.
\<close>

definition openRDB :: "(string \<Rightarrow> KV result) \<Rightarrow> string \<Rightarrow> db result" where
  "openRDB openPebbleDB dir =
     (case openPebbleDB dir of
        Err e \<Rightarrow> Err e
      | Panic p \<Rightarrow> Panic p
      | Ok kv \<Rightarrow> Ok \<lparr>cs = newCache, kvs = kv, entries = newPlainEntries\<rparr>)"

text \<open>
  \<^verbatim>\<open>getWriteBatch\<close>: the batch of the context, created and stored there if the
  context has none; a fresh batch when the context is nil.
\<close>

definition getWriteBatch :: "IContext option \<Rightarrow> pebbleWriteBatch \<times> IContext option" where
  "getWriteBatch ctx =
     (case ctx of
        Some c \<Rightarrow>
          (case ctx_wb c of
             None \<Rightarrow> ([], Some (c\<lparr>ctx_wb := Some []\<rparr>))
           | Some wb \<Rightarrow> (wb, ctx))
      | None \<Rightarrow> ([], None))"

definition listSnapshots_op :: "key \<Rightarrow> val \<Rightarrow> Snapshot list \<Rightarrow> bool result \<times> Snapshot list" where
  "listSnapshots_op k data snapshots =
     (case data of
        SnapshotVal ss \<Rightarrow> (Ok True, snapshots @ [ss])
      | _ \<Rightarrow> (Panic CorruptRecord, snapshots))"

definition listSnapshots :: "db \<Rightarrow> u64 \<Rightarrow> u64 \<Rightarrow> u64 \<Rightarrow> Snapshot list result \<times> db" where
  "listSnapshots r clusterID nodeID index =
     (case IterateValue (kvs r) (SnapshotKey clusterID nodeID 0) (SnapshotKey clusterID nodeID index)
             True listSnapshots_op [] of
        ((Ok _, snapshots), kv') \<Rightarrow> (Ok snapshots, r\<lparr>kvs := kv'\<rparr>)
      | ((Err e, _), kv') \<Rightarrow> (Err e, r\<lparr>kvs := kv'\<rparr>)
      | ((Panic p, _), kv') \<Rightarrow> (Panic p, r\<lparr>kvs := kv'\<rparr>))"

text \<open>The loop of \<^verbatim>\<open>saveSnapshot\<close>: a delete for each listed snapshot of a lower index.\<close>

fun saveSnapshot_loop :: "pebbleWriteBatch \<Rightarrow> Update \<Rightarrow> Snapshot list \<Rightarrow> pebbleWriteBatch" where
  "saveSnapshot_loop wb ud [] = wb"
| "saveSnapshot_loop wb ud (ss # snapshots) =
     (if ss_Index ss < ss_Index (ud_Snapshot ud)
      then saveSnapshot_loop (wb @ [Delete (SnapshotKey (ud_ClusterID ud) (ud_NodeID ud) (ss_Index ss))])
             ud snapshots
      else saveSnapshot_loop wb ud snapshots)"

definition saveSnapshot :: "db \<Rightarrow> pebbleWriteBatch \<Rightarrow> Update \<Rightarrow> unit result \<times> pebbleWriteBatch \<times> db" where
  "saveSnapshot r wb ud =
     (if IsEmptySnapshot (ud_Snapshot ud) then (Ok (), wb, r)
      else
        (case listSnapshots r (ud_ClusterID ud) (ud_NodeID ud) MaxUint64 of
           (Err e, r') \<Rightarrow> (Err e, wb, r')
         | (Panic p, r') \<Rightarrow> (Panic p, wb, r')
         | (Ok snapshots, r') \<Rightarrow>
             (Ok (),
              saveSnapshot_loop wb ud snapshots @
                [Put (SnapshotKey (ud_ClusterID ud) (ud_NodeID ud) (ss_Index (ud_Snapshot ud)))
                   (SnapshotVal (ud_Snapshot ud))],
              r')))"

definition saveMaxIndex ::
  "pebbleWriteBatch \<Rightarrow> u64 \<Rightarrow> u64 \<Rightarrow> u64 \<Rightarrow> IContext option \<Rightarrow> pebbleWriteBatch" where
  "saveMaxIndex wb clusterID nodeID index ctx =
     wb @ [Put (MaxIndexKey clusterID nodeID) (MaxIndexVal index)]"

definition setMaxIndex ::
  "db \<Rightarrow> pebbleWriteBatch \<Rightarrow> Update \<Rightarrow> u64 \<Rightarrow> IContext option \<Rightarrow> pebbleWriteBatch \<times> db" where
  "setMaxIndex r wb ud maxIndex ctx =
     (saveMaxIndex wb (ud_ClusterID ud) (ud_NodeID ud) maxIndex ctx,
      r\<lparr>cs := cache_setMaxIndex (cs r) (ud_ClusterID ud) (ud_NodeID ud) maxIndex\<rparr>)"

text \<open>
  \<^verbatim>\<open>saveState\<close>. The value buffer and the key come from the context, so a nil
  context is a nil dereference once the cache has accepted the state.
\<close>

definition saveState ::
  "db \<Rightarrow> u64 \<Rightarrow> u64 \<Rightarrow> State \<Rightarrow> pebbleWriteBatch \<Rightarrow> IContext option
     \<Rightarrow> unit result \<times> pebbleWriteBatch \<times> db" where
  "saveState r clusterID nodeID st wb ctx =
     (if IsEmptyState st then (Ok (), wb, r)
      else
        (case cache_setState (cs r) clusterID nodeID st of
           (False, cs') \<Rightarrow> (Ok (), wb, r\<lparr>cs := cs'\<rparr>)
         | (True, cs') \<Rightarrow>
             (case ctx of
                None \<Rightarrow> (Panic NilContext, wb, r\<lparr>cs := cs'\<rparr>)
              | Some _ \<Rightarrow>
                  (Ok (), wb @ [Put (StateKey clusterID nodeID) (StateVal st)], r\<lparr>cs := cs'\<rparr>))))"

fun saveEntries ::
  "db \<Rightarrow> Update list \<Rightarrow> pebbleWriteBatch \<Rightarrow> IContext option \<Rightarrow> pebbleWriteBatch \<times> db" where
  "saveEntries r [] wb ctx = (wb, r)"
| "saveEntries r (ud # updates) wb ctx =
     (if ud_EntriesToSave ud \<noteq> [] then
        (case em_record (entries r) wb (ud_ClusterID ud) (ud_NodeID ud) ctx (ud_EntriesToSave ud) of
           (mi, wb1) \<Rightarrow>
             if 0 < mi then
               (case setMaxIndex r wb1 ud mi ctx of
                  (wb2, r2) \<Rightarrow> saveEntries r2 updates wb2 ctx)
             else saveEntries r updates wb1 ctx)
      else saveEntries r updates wb ctx)"

text \<open>
  The first loop of \<^verbatim>\<open>saveRaftState\<close>. Its result is \<open>None\<close> when the loop ran to
  its end, and \<open>Some x\<close> when the function left from inside the loop: \<open>Some (Ok ())\<close>
  is \<^verbatim>\<open>return nil\<close>, \<open>Some (Panic p)\<close> a panic.
\<close>

fun saveRaftState_loop ::
  "db \<Rightarrow> pebbleWriteBatch \<Rightarrow> IContext option \<Rightarrow> Update list
     \<Rightarrow> unit result option \<times> pebbleWriteBatch \<times> db" where
  "saveRaftState_loop r wb ctx [] = (None, wb, r)"
| "saveRaftState_loop r wb ctx (ud # updates) =
     (case saveState r (ud_ClusterID ud) (ud_NodeID ud) (ud_State ud) wb ctx of
        (Panic p, wb1, r1) \<Rightarrow> (Some (Panic p), wb1, r1)
      | (Err e, wb1, r1) \<Rightarrow> (Some (Err e), wb1, r1)
      | (Ok _, wb1, r1) \<Rightarrow>
          if \<not> IsEmptySnapshot (ud_Snapshot ud) then
            (case cache_trySaveSnapshot (cs r1) (ud_ClusterID ud) (ud_NodeID ud)
                    (ss_Index (ud_Snapshot ud)) of
               (False, cs2) \<Rightarrow> saveRaftState_loop (r1\<lparr>cs := cs2\<rparr>) wb1 ctx updates
             | (True, cs2) \<Rightarrow>
                 if ud_EntriesToSave ud \<noteq> [] \<and>
                    e_Index (last (ud_EntriesToSave ud)) < ss_Index (ud_Snapshot ud)
                 then (Some (Panic (MaxIndexNotHandled (ss_Index (ud_Snapshot ud))
                                      (e_Index (last (ud_EntriesToSave ud))))),
                       wb1, r1\<lparr>cs := cs2\<rparr>)
                 else
                   (case saveSnapshot (r1\<lparr>cs := cs2\<rparr>) wb1 ud of
                      (Err e, wb3, r3) \<Rightarrow> (Some (Ok ()), wb3, r3)
                    | (Panic p, wb3, r3) \<Rightarrow> (Some (Panic p), wb3, r3)
                    | (Ok _, wb3, r3) \<Rightarrow>
                        (case setMaxIndex r3 wb3 ud (ss_Index (ud_Snapshot ud)) ctx of
                           (wb4, r4) \<Rightarrow> saveRaftState_loop r4 wb4 ctx updates)))
          else saveRaftState_loop r1 wb1 ctx updates)"

text \<open>
  \<^verbatim>\<open>saveRaftState\<close>. The third component of the result is the write batch as the
  call leaves it; when there is a context, this is the batch the context holds.
\<close>

definition saveRaftState ::
  "db \<Rightarrow> Update list \<Rightarrow> IContext option \<Rightarrow> unit result \<times> db \<times> pebbleWriteBatch" where
  "saveRaftState r updates ctx =
     (case getWriteBatch ctx of
        (wb, ctx0) \<Rightarrow>
          (case saveRaftState_loop r wb ctx0 updates of
             (Some x, wb1, r1) \<Rightarrow> (x, r1, wb1)
           | (None, wb1, r1) \<Rightarrow>
               (case saveEntries r1 updates wb1 ctx0 of
                  (wb2, r2) \<Rightarrow>
                    if 0 < Count wb2 then
                      (case CommitWriteBatch (kvs r2) wb2 of
                         (x, kv') \<Rightarrow> (x, r2\<lparr>kvs := kv'\<rparr>, wb2))
                    else (Ok (), r2, wb2))))"

text \<open>
  The loop of \<^verbatim>\<open>saveSnapshots\<close>, with the flag \<open>toSave\<close>; the result is read as for
  \<open>saveRaftState_loop\<close>.
\<close>

fun saveSnapshots_loop ::
  "db \<Rightarrow> pebbleWriteBatch \<Rightarrow> bool \<Rightarrow> Update list
     \<Rightarrow> unit result option \<times> pebbleWriteBatch \<times> bool \<times> db" where
  "saveSnapshots_loop r wb toSave [] = (None, wb, toSave, r)"
| "saveSnapshots_loop r wb toSave (ud # updates) =
     (if \<not> IsEmptySnapshot (ud_Snapshot ud) then
        (case cache_trySaveSnapshot (cs r) (ud_ClusterID ud) (ud_NodeID ud)
                (ss_Index (ud_Snapshot ud)) of
           (False, cs1) \<Rightarrow> saveSnapshots_loop (r\<lparr>cs := cs1\<rparr>) wb toSave updates
         | (True, cs1) \<Rightarrow>
             (case saveSnapshot (r\<lparr>cs := cs1\<rparr>) wb ud of
                (Err e, wb2, r2) \<Rightarrow> (Some (Ok ()), wb2, toSave, r2)
              | (Panic p, wb2, r2) \<Rightarrow> (Some (Panic p), wb2, toSave, r2)
              | (Ok _, wb2, r2) \<Rightarrow> saveSnapshots_loop r2 wb2 True updates))
      else saveSnapshots_loop r wb toSave updates)"

definition saveSnapshots :: "db \<Rightarrow> Update list \<Rightarrow> unit result \<times> db" where
  "saveSnapshots r updates =
     (case getWriteBatch None of
        (wb, _) \<Rightarrow>
          (case saveSnapshots_loop r wb False updates of
             (Some x, wb1, toSave, r1) \<Rightarrow> (x, r1)
           | (None, wb1, toSave, r1) \<Rightarrow>
               if toSave then
                 (case CommitWriteBatch (kvs r1) wb1 of (x, kv') \<Rightarrow> (x, r1\<lparr>kvs := kv'\<rparr>))
               else (Ok (), r1)))"

definition getSnapshot :: "db \<Rightarrow> u64 \<Rightarrow> u64 \<Rightarrow> Snapshot result \<times> db" where
  "getSnapshot r clusterID nodeID =
     (case listSnapshots r clusterID nodeID MaxUint64 of
        (Err e, r') \<Rightarrow> (Err e, r')
      | (Panic p, r') \<Rightarrow> (Panic p, r')
      | (Ok snapshots, r') \<Rightarrow>
          if snapshots \<noteq> [] then
            (Ok (last snapshots),
             r'\<lparr>cs := cache_setSnapshotIndex (cs r') clusterID nodeID (ss_Index (last snapshots))\<rparr>)
          else (Ok emptySnapshot, r'))"

definition getMaxIndex_op :: "val option \<Rightarrow> u64 result" where
  "getMaxIndex_op data =
     (case data of
        None \<Rightarrow> Err ErrNoSavedLog
      | Some (MaxIndexVal v) \<Rightarrow> Ok v
      | Some _ \<Rightarrow> Panic CorruptRecord)"

definition getMaxIndex :: "db \<Rightarrow> u64 \<Rightarrow> u64 \<Rightarrow> u64 result \<times> db" where
  "getMaxIndex r clusterID nodeID =
     (case cache_getMaxIndex (cs r) clusterID nodeID of
        Some v \<Rightarrow> (Ok v, r)
      | None \<Rightarrow>
          (case GetValue (kvs r) (MaxIndexKey clusterID nodeID) getMaxIndex_op of
             (x, kv') \<Rightarrow> (x, r\<lparr>kvs := kv'\<rparr>)))"

definition getState_op :: "val option \<Rightarrow> State result" where
  "getState_op data =
     (case data of
        None \<Rightarrow> Err ErrNoSavedLog
      | Some (StateVal hs) \<Rightarrow> Ok hs
      | Some _ \<Rightarrow> Panic CorruptRecord)"

definition getState :: "db \<Rightarrow> u64 \<Rightarrow> u64 \<Rightarrow> State result \<times> db" where
  "getState r clusterID nodeID =
     (case GetValue (kvs r) (StateKey clusterID nodeID) getState_op of
        (x, kv') \<Rightarrow> (x, r\<lparr>kvs := kv'\<rparr>))"

definition getBootstrapInfo_op :: "val option \<Rightarrow> Bootstrap result" where
  "getBootstrapInfo_op data =
     (case data of
        None \<Rightarrow> Err ErrNoBootstrapInfo
      | Some (BootstrapVal bootstrap) \<Rightarrow> Ok bootstrap
      | Some _ \<Rightarrow> Panic CorruptRecord)"

definition getBootstrapInfo :: "db \<Rightarrow> u64 \<Rightarrow> u64 \<Rightarrow> Bootstrap result \<times> db" where
  "getBootstrapInfo r clusterID nodeID =
     (case GetValue (kvs r) (BootstrapKey clusterID nodeID) getBootstrapInfo_op of
        (x, kv') \<Rightarrow> (x, r\<lparr>kvs := kv'\<rparr>))"

definition removeEntriesTo :: "db \<Rightarrow> u64 \<Rightarrow> u64 \<Rightarrow> u64 \<Rightarrow> unit result \<times> db" where
  "removeEntriesTo r clusterID nodeID index =
     (case em_rangedOp (entries r) clusterID nodeID index
             (\<lambda>fk lk kv. BulkRemoveEntries kv fk lk) (kvs r) of
        (x, kv') \<Rightarrow> (x, r\<lparr>kvs := kv'\<rparr>))"

text \<open>The loop of \<^verbatim>\<open>saveRemoveNodeData\<close>: a delete for each listed snapshot.\<close>

fun saveRemoveNodeData_loop ::
  "pebbleWriteBatch \<Rightarrow> Snapshot list \<Rightarrow> u64 \<Rightarrow> u64 \<Rightarrow> pebbleWriteBatch" where
  "saveRemoveNodeData_loop wb [] clusterID nodeID = wb"
| "saveRemoveNodeData_loop wb (ss # snapshots) clusterID nodeID =
     saveRemoveNodeData_loop (wb @ [Delete (SnapshotKey clusterID nodeID (ss_Index ss))])
       snapshots clusterID nodeID"

definition saveRemoveNodeData ::
  "pebbleWriteBatch \<Rightarrow> Snapshot list \<Rightarrow> u64 \<Rightarrow> u64 \<Rightarrow> pebbleWriteBatch" where
  "saveRemoveNodeData wb snapshots clusterID nodeID =
     saveRemoveNodeData_loop
       (wb @ [Delete (StateKey clusterID nodeID), Delete (BootstrapKey clusterID nodeID),
              Delete (MaxIndexKey clusterID nodeID)])
       snapshots clusterID nodeID"

definition removeNodeData :: "db \<Rightarrow> u64 \<Rightarrow> u64 \<Rightarrow> unit result \<times> db" where
  "removeNodeData r clusterID nodeID =
     (case getWriteBatch None of
        (wb, _) \<Rightarrow>
          (case listSnapshots r clusterID nodeID MaxUint64 of
             (Err e, r1) \<Rightarrow> (Err e, r1)
           | (Panic p, r1) \<Rightarrow> (Panic p, r1)
           | (Ok snapshots, r1) \<Rightarrow>
               (case CommitWriteBatch (kvs r1) (saveRemoveNodeData wb snapshots clusterID nodeID) of
                  (Err e, kv2) \<Rightarrow> (Err e, r1\<lparr>kvs := kv2\<rparr>)
                | (Panic p, kv2) \<Rightarrow> (Panic p, r1\<lparr>kvs := kv2\<rparr>)
                | (Ok _, kv2) \<Rightarrow>
                    removeEntriesTo
                      (r1\<lparr>kvs := kv2, cs := cache_setMaxIndex (cs r1) clusterID nodeID 0\<rparr>)
                      clusterID nodeID MaxUint64)))"

definition iterateEntries ::
  "db \<Rightarrow> Entry list \<Rightarrow> u64 \<Rightarrow> u64 \<Rightarrow> u64 \<Rightarrow> u64 \<Rightarrow> u64 \<Rightarrow> u64
     \<Rightarrow> (Entry list \<times> u64) result \<times> db" where
  "iterateEntries r ents sz clusterID nodeID low high maxSize =
     (case getMaxIndex r clusterID nodeID of
        (Err e, r') \<Rightarrow>
          if e = ErrNoSavedLog then (Ok (ents, sz), r') else (Err (ErrWrapped e), r')
      | (Panic p, r') \<Rightarrow> (Panic p, r')
      | (Ok maxIndex, r') \<Rightarrow>
          (case em_iterate (entries r') (kvs r') ents maxIndex sz clusterID nodeID low high maxSize of
             (x, kv') \<Rightarrow> (Wrapf x, r'\<lparr>kvs := kv'\<rparr>)))"

subsection \<open>Reading the trace of the engine\<close>

text \<open>The batches handed to \<^verbatim>\<open>CommitWriteBatch\<close>, in order.\<close>

fun committed :: "kvcall list \<Rightarrow> pebbleWriteBatch list" where
  "committed [] = []"
| "committed (CallCommit wb # cl) = wb # committed cl"
| "committed (_ # cl) = committed cl"

text \<open>The keys read by \<^verbatim>\<open>GetValue\<close>, in order.\<close>

fun gets :: "kvcall list \<Rightarrow> key list" where
  "gets [] = []"
| "gets (CallGet k # cl) = k # gets cl"
| "gets (_ # cl) = gets cl"

subsection \<open>The snapshot records of a replica in the store\<close>

text \<open>The snapshot keys of replica \<open>(c, n)\<close>, and the records stored under them.\<close>

definition is_snapshot_key :: "u64 \<Rightarrow> u64 \<Rightarrow> key \<Rightarrow> bool" where
  "is_snapshot_key c n k = (case k of SnapshotKey c' n' i \<Rightarrow> c' = c \<and> n' = n | _ \<Rightarrow> False)"

definition snapshot_records :: "u64 \<Rightarrow> u64 \<Rightarrow> (key \<times> val) list \<Rightarrow> (key \<times> val) list" where
  "snapshot_records c n s = filter (\<lambda>r. is_snapshot_key c n (fst r)) s"

text \<open>
  Every snapshot record is stored under the index of the snapshot it holds, as
  \<^verbatim>\<open>saveSnapshot\<close> stores it (\<^verbatim>\<open>saveSnapshot\<close> and \<^verbatim>\<open>saveRemoveNodeData\<close> compute
  the key of a stored snapshot from the index inside the record).
\<close>

definition keyed_by_index :: "key \<times> val \<Rightarrow> bool" where
  "keyed_by_index r =
     (case fst r of
        SnapshotKey c n i \<Rightarrow> (case snd r of SnapshotVal ss \<Rightarrow> ss_Index ss = i | _ \<Rightarrow> False)
      | _ \<Rightarrow> True)"

definition snapshots_keyed_by_index :: "(key \<times> val) list \<Rightarrow> bool" where
  "snapshots_keyed_by_index s = list_all keyed_by_index s"

text \<open>
  A staged mutation that keeps it so: a delete, or a put that does not put a snapshot
  record under another index than its own.
\<close>

definition op_keyed :: "wbop \<Rightarrow> bool" where
  "op_keyed op = (case op of Put k v \<Rightarrow> keyed_by_index (k, v) | Delete k \<Rightarrow> True)"

subsection \<open>Example values\<close>

text \<open>An empty engine without faults, a fresh log DB on it, a context, and an update.\<close>

definition ex_kv :: KV where
  "ex_kv = \<lparr>store = [], faults = [], calls = []\<rparr>"

definition ex_db :: db where
  "ex_db = \<lparr>cs = newCache, kvs = ex_kv, entries = newPlainEntries\<rparr>"

definition ex_ctx :: "IContext option" where
  "ex_ctx = Some \<lparr>ctx_wb = None\<rparr>"

definition ex_ud :: Update where
  "ex_ud = \<lparr>ud_ClusterID = 1, ud_NodeID = 1,
            ud_State = \<lparr>st_Term = 2, st_Vote = 1, st_Commit = 4\<rparr>,
            ud_EntriesToSave = [\<lparr>e_Index = 4, e_Term = 2, e_Cmd = [7]\<rparr>],
            ud_Snapshot = emptySnapshot\<rparr>"

text \<open>
  An engine whose next call fails, a log DB on it, and an update that carries a
  snapshot at index 3 (no state, no entries).
\<close>

definition ex_faulty_db :: db where
  "ex_faulty_db = ex_db\<lparr>kvs := ex_kv\<lparr>faults := [Some ErrStorageIO]\<rparr>\<rparr>"

definition ex_ud_ss :: Update where
  "ex_ud_ss = \<lparr>ud_ClusterID = 1, ud_NodeID = 1, ud_State = emptyState, ud_EntriesToSave = [],
               ud_Snapshot = \<lparr>ss_Index = 3, ss_Term = 1, ss_Filepath = ''snapshot-3''\<rparr>\<rparr>"

text \<open>An update whose snapshot (index 5) is above its last entry (index 3).\<close>

definition ex_ud_bad :: Update where
  "ex_ud_bad = \<lparr>ud_ClusterID = 1, ud_NodeID = 1, ud_State = emptyState,
                ud_EntriesToSave = [\<lparr>e_Index = 3, e_Term = 1, e_Cmd = []\<rparr>],
                ud_Snapshot = \<lparr>ss_Index = 5, ss_Term = 1, ss_Filepath = ''snapshot-5''\<rparr>\<rparr>"

text \<open>A log DB with an empty cache whose store holds max index 5 for replica (1, 1).\<close>

definition ex_db_maxindex :: db where
  "ex_db_maxindex = ex_db\<lparr>kvs := ex_kv\<lparr>store := [(MaxIndexKey 1 1, MaxIndexVal 5)]\<rparr>\<rparr>"

text \<open>
  An engine whose store holds one batched record (two entries under one entry key),
  and an \<^verbatim>\<open>openPebbleDB\<close> that opens it.
\<close>

definition ex_kv_batched :: KV where
  "ex_kv_batched =
     ex_kv\<lparr>store := [(EntryKey 1 1 1,
                        EntryBatchVal [\<lparr>e_Index = 1, e_Term = 1, e_Cmd = [7]\<rparr>,
                                       \<lparr>e_Index = 2, e_Term = 1, e_Cmd = [8]\<rparr>])]\<rparr>"

definition ex_openPebbleDB :: "string \<Rightarrow> KV result" where
  "ex_openPebbleDB dir = Ok ex_kv_batched"

text \<open>
  A store with the records of replica (1, 1): two entries, the state, the max index, a
  snapshot at index 3 and the bootstrap record; a log DB on it; and the same log DB on
  an engine whose third call fails.
\<close>

definition ex_store :: "(key \<times> val) list" where
  "ex_store =
     [(EntryKey 1 1 4, EntryVal \<lparr>e_Index = 4, e_Term = 2, e_Cmd = [7]\<rparr>),
      (EntryKey 1 1 5, EntryVal \<lparr>e_Index = 5, e_Term = 2, e_Cmd = [8]\<rparr>),
      (StateKey 1 1, StateVal \<lparr>st_Term = 2, st_Vote = 1, st_Commit = 4\<rparr>),
      (MaxIndexKey 1 1, MaxIndexVal 5),
      (SnapshotKey 1 1 3, SnapshotVal \<lparr>ss_Index = 3, ss_Term = 1, ss_Filepath = ''snapshot-3''\<rparr>),
      (BootstrapKey 1 1, BootstrapVal \<lparr>bs_Join = False, bs_Type = 1\<rparr>)]"

definition ex_db_full :: db where
  "ex_db_full = ex_db\<lparr>kvs := ex_kv\<lparr>store := ex_store\<rparr>\<rparr>"

definition ex_db_removal_fails :: db where
  "ex_db_removal_fails =
     ex_db\<lparr>kvs := ex_kv\<lparr>store := ex_store, faults := [None, None, Some ErrStorageIO]\<rparr>\<rparr>"


text \<open>
  A log DB whose store holds one snapshot record, of index 1, under the snapshot key of
  index 2.
\<close>

definition ex_db_miskeyed :: db where
  "ex_db_miskeyed =
     ex_db\<lparr>kvs := ex_kv\<lparr>store :=
       [(SnapshotKey 1 1 2, SnapshotVal \<lparr>ss_Index = 1, ss_Term = 1, ss_Filepath = ''snapshot-1''\<rparr>)]\<rparr>\<rparr>"

section \<open>Properties\<close>

subsection \<open>What a call leaves unchanged\<close>

lemma committed_append: "committed (a @ b) = committed a @ committed b"
  by (induction a rule: committed.induct) auto

lemma engine_call_frame:
  "engine_call c kv = (f, kv') \<Longrightarrow> store kv' = store kv \<and> calls kv' = calls kv @ [c]"
  by (auto simp: engine_call_def split: list.splits)

lemma IterateValue_frame:
  "IterateValue kv fk lk inc op acc = (x, kv') \<Longrightarrow>
     store kv' = store kv \<and> calls kv' = calls kv @ [CallIterate fk lk inc]"
  by (auto simp: IterateValue_def split: prod.splits option.splits dest: engine_call_frame)

lemma listSnapshots_frame:
  "listSnapshots r c n i = (x, r') \<Longrightarrow>
     store (kvs r') = store (kvs r) \<and> committed (calls (kvs r')) = committed (calls (kvs r)) \<and>
     cs r' = cs r \<and> entries r' = entries r"
  by (auto simp: listSnapshots_def committed_append split: prod.splits result.splits dest!: IterateValue_frame)

lemma saveSnapshot_frame:
  "saveSnapshot r wb ud = (x, wb', r') \<Longrightarrow>
     store (kvs r') = store (kvs r) \<and> committed (calls (kvs r')) = committed (calls (kvs r)) \<and>
     cs r' = cs r \<and> entries r' = entries r"
  by (auto simp: saveSnapshot_def split: if_splits prod.splits result.splits dest!: listSnapshots_frame)

lemma saveState_frame:
  "saveState r c n st wb ctx = (x, wb', r') \<Longrightarrow> kvs r' = kvs r \<and> entries r' = entries r \<and> (\<forall>e. x \<noteq> Err e)"
  by (auto simp: saveState_def split: if_splits prod.splits option.splits bool.splits)

lemma setMaxIndex_frame:
  "setMaxIndex r wb ud mi ctx = (wb', r') \<Longrightarrow> kvs r' = kvs r \<and> entries r' = entries r"
  by (auto simp: setMaxIndex_def)

lemma saveEntries_frame:
  "saveEntries r updates wb ctx = (wb', r') \<Longrightarrow> kvs r' = kvs r \<and> entries r' = entries r"
proof (induction r updates wb ctx rule: saveEntries.induct)
  case (1 r wb ctx)
  then show ?case by simp
next
  case (2 r ud updates wb ctx)
  then show ?case
    by (auto split: if_splits prod.splits dest!: setMaxIndex_frame)
qed

lemma saveRaftState_loop_frame:
  "saveRaftState_loop r wb ctx updates = (x, wb', r') \<Longrightarrow>
     store (kvs r') = store (kvs r) \<and> committed (calls (kvs r')) = committed (calls (kvs r)) \<and>
     entries r' = entries r \<and> (\<forall>e. x \<noteq> Some (Err e))"
proof (induction r wb ctx updates rule: saveRaftState_loop.induct)
  case (1 r wb ctx)
  then show ?case by simp
next
  case (2 r wb ctx ud updates)
  show ?case
    using "2.prems" "2.IH"
    apply (simp split: prod.splits result.splits if_splits bool.splits)
    apply (auto dest!: saveState_frame saveSnapshot_frame setMaxIndex_frame)
    done
qed


lemmas ex_defs = ex_kv_def ex_db_def ex_ctx_def ex_ud_def

lemmas db_defs = saveRaftState_def getWriteBatch_def saveState_def IsEmptyState_def emptyState_def
  IsEmptySnapshot_def emptySnapshot_def cache_trySaveSnapshot_def cache_setState_def  newCache_def saveSnapshot_def
  listSnapshots_def IterateValue_def engine_call_def setMaxIndex_def saveMaxIndex_def
  cache_setMaxIndex_def Count_def CommitWriteBatch_def apply_batch_def newPlainEntries_def

subsection \<open>The atomic commit of saveRaftState\<close>

text \<open>
  C1. Whatever the updates and the context, \<open>saveRaftState\<close> hands at most one batch
  to the engine: the whole batch as the call staged it, and only when that batch is
  not empty. The store is then either that batch applied in full, or (the commit
  failed) what it was; without a commit the store is what it was and no error is
  returned. With an empty batch nothing is committed, and a call that returns at all
  returns success.
\<close>

theorem saveRaftState_commit_atomic:
  assumes "saveRaftState r updates ctx = (x, r', wb)"
  shows "(Count wb = 0 \<longrightarrow>
            (x = Ok () \<or> (\<exists>p. x = Panic p)) \<and>
            committed (calls (kvs r')) = committed (calls (kvs r)) \<and>
            store (kvs r') = store (kvs r)) \<and>
         (committed (calls (kvs r')) = committed (calls (kvs r)) \<and>
            store (kvs r') = store (kvs r) \<and> (\<forall>e. x \<noteq> Err e)
          \<or> 0 < Count wb \<and>
            committed (calls (kvs r')) = committed (calls (kvs r)) @ [wb] \<and>
            (x = Ok () \<and> store (kvs r') = apply_batch wb (store (kvs r))
             \<or> (\<exists>e. x = Err e) \<and> store (kvs r') = store (kvs r)))"
proof -
  obtain wb0 ctx0 where g: "getWriteBatch ctx = (wb0, ctx0)"
    by (cases "getWriteBatch ctx")
  obtain y wb1 r1 where l: "saveRaftState_loop r wb0 ctx0 updates = (y, wb1, r1)"
    by (cases "saveRaftState_loop r wb0 ctx0 updates")
  note lf = saveRaftState_loop_frame [OF l]
  show ?thesis
  proof (cases y)
    case (Some z)
    with assms g l have "x = z" "r' = r1" by (simp_all add: saveRaftState_def)
    with lf Some show ?thesis by (cases z) auto
  next
    case None
    obtain wb2 r2 where e: "saveEntries r1 updates wb1 ctx0 = (wb2, r2)"
      by (cases "saveEntries r1 updates wb1 ctx0")
    note ef = saveEntries_frame [OF e]
    show ?thesis
    proof (cases "0 < Count wb2")
      case False
      with assms g l None e have "x = Ok ()" "r' = r2" "wb = wb2"
        by (simp_all add: saveRaftState_def)
      with lf ef False show ?thesis by simp
    next
      case True
      obtain z kv' where c: "CommitWriteBatch (kvs r2) wb2 = (z, kv')"
        by (cases "CommitWriteBatch (kvs r2) wb2")
      with assms g l None e True have eq: "x = z" "r' = r2\<lparr>kvs := kv'\<rparr>" "wb = wb2"
        by (simp_all add: saveRaftState_def)
      from c have "committed (calls kv') = committed (calls (kvs r2)) @ [wb2] \<and>
          (z = Ok () \<and> store kv' = apply_batch wb2 (store (kvs r2))
           \<or> (\<exists>e. z = Err e) \<and> store kv' = store (kvs r2))"
        by (auto simp: CommitWriteBatch_def committed_append split: prod.splits option.splits
            dest!: engine_call_frame)
      with eq lf ef True show ?thesis by auto
    qed
  qed
qed

theorem saveRaftState_commit_atomic_witness:
  "saveRaftState ex_db [] ex_ctx = (Ok (), ex_db, []) \<and>
   Count [] = 0 \<and>
   committed (calls (kvs ex_db)) = [] \<and>
   fst (saveRaftState ex_db [ex_ud] ex_ctx) = Ok () \<and>
   committed (calls (kvs (fst (snd (saveRaftState ex_db [ex_ud] ex_ctx))))) =
     [[Put (StateKey 1 1) (StateVal \<lparr>st_Term = 2, st_Vote = 1, st_Commit = 4\<rparr>),
       Put (EntryKey 1 1 4) (EntryVal \<lparr>e_Index = 4, e_Term = 2, e_Cmd = [7]\<rparr>),
       Put (MaxIndexKey 1 1) (MaxIndexVal 4)]]"
proof -
  have a: "saveRaftState ex_db [] ex_ctx = (Ok (), ex_db, [])"
    by (simp add: db_defs ex_defs)
  have b: "saveRaftState ex_db [ex_ud] ex_ctx = (fst (saveRaftState ex_db [ex_ud] ex_ctx),
       fst (snd (saveRaftState ex_db [ex_ud] ex_ctx)), snd (snd (saveRaftState ex_db [ex_ud] ex_ctx)))"
    by simp
  have c: "fst (saveRaftState ex_db [ex_ud] ex_ctx) = Ok ()"
    by (simp add: db_defs ex_defs)
  have d: "snd (snd (saveRaftState ex_db [ex_ud] ex_ctx)) =
     [Put (StateKey 1 1) (StateVal \<lparr>st_Term = 2, st_Vote = 1, st_Commit = 4\<rparr>),
       Put (EntryKey 1 1 4) (EntryVal \<lparr>e_Index = 4, e_Term = 2, e_Cmd = [7]\<rparr>),
       Put (MaxIndexKey 1 1) (MaxIndexVal 4)]"
    by (simp add: db_defs ex_defs)
  have e: "committed (calls (kvs ex_db)) = []"
    by (simp add: ex_defs)
  have f: "store (kvs (fst (snd (saveRaftState ex_db [ex_ud] ex_ctx)))) \<noteq> store (kvs ex_db)"
    by (simp add: db_defs ex_defs)
  show ?thesis
    using saveRaftState_commit_atomic [OF a] saveRaftState_commit_atomic [OF b] a c d e f
    by (simp add: Count_def)
qed

subsection \<open>The error of the snapshot step\<close>

text \<open>
  C2. The claim: when the snapshot step inside \<open>saveRaftState\<close> or \<open>saveSnapshots\<close>
  fails, the call returns that error. The code returns nil there. With an engine whose
  snapshot listing fails, \<open>saveSnapshot\<close> returns the storage error, and both callers
  return success, having committed nothing.
\<close>

theorem snapshot_error_swallowed:
  "fst (saveSnapshot ex_faulty_db [] ex_ud_ss) = Err ErrStorageIO \<and>
   fst (saveRaftState ex_faulty_db [ex_ud_ss] ex_ctx) = Ok () \<and>
   committed (calls (kvs (fst (snd (saveRaftState ex_faulty_db [ex_ud_ss] ex_ctx))))) = [] \<and>
   fst (saveSnapshots ex_faulty_db [ex_ud_ss]) = Ok () \<and>
   committed (calls (kvs (snd (saveSnapshots ex_faulty_db [ex_ud_ss])))) = []"
  by (simp add: db_defs saveSnapshots_def ex_defs ex_faulty_db_def ex_ud_ss_def)

subsection \<open>The snapshot index and the entries of one update\<close>

lemma iterate_records_listSnapshots_panic:
  "iterate_records listSnapshots_op rs acc = (Panic p, out) \<Longrightarrow> p = CorruptRecord"
  by (induction rs arbitrary: acc)
     (auto simp: listSnapshots_op_def split: val.splits prod.splits result.splits bool.splits)

lemma listSnapshots_panic:
  "listSnapshots r c n i = (Panic p, r') \<Longrightarrow> p = CorruptRecord"
  by (auto simp: listSnapshots_def IterateValue_def split: prod.splits result.splits option.splits
      dest: iterate_records_listSnapshots_panic)

lemma saveSnapshot_panic:
  "saveSnapshot r wb ud = (Panic p, wb', r') \<Longrightarrow> p = CorruptRecord"
  by (auto simp: saveSnapshot_def split: if_splits prod.splits result.splits dest: listSnapshots_panic)

lemma saveState_panic:
  "saveState r c n st wb ctx = (Panic p, wb', r') \<Longrightarrow> p = NilContext"
  by (auto simp: saveState_def split: if_splits prod.splits option.splits bool.splits)

lemma saveState_cache:
  "saveState r c n st wb ctx = (x, wb', r') \<Longrightarrow> c_snapshotIndex (cs r') = c_snapshotIndex (cs r)"
  by (auto simp: saveState_def cache_setState_def split: if_splits prod.splits option.splits bool.splits)

lemma saveRaftState_loop_no_max_index_panic:
  "\<forall>u \<in> set updates. ud_EntriesToSave u \<noteq> [] \<longrightarrow>
       ss_Index (ud_Snapshot u) \<le> e_Index (last (ud_EntriesToSave u)) \<Longrightarrow>
   fst (saveRaftState_loop r wb ctx updates) \<noteq> Some (Panic (MaxIndexNotHandled a b))"
proof (induction r wb ctx updates rule: saveRaftState_loop.induct)
  case (1 r wb ctx)
  then show ?case by simp
next
  case (2 r wb ctx ud updates)
  show ?case
    using "2.prems" "2.IH"
    apply (simp split: prod.splits result.splits if_splits bool.splits)
    apply (auto dest!: saveState_panic saveSnapshot_panic)
    done
qed

lemma CommitWriteBatch_no_panic: "CommitWriteBatch kv wb = (Panic p, kv') \<Longrightarrow> False"
  by (auto simp: CommitWriteBatch_def split: prod.splits option.splits)

lemma saveRaftState_loop_head_fatal:
  assumes "\<not> IsEmptySnapshot (ud_Snapshot ud)"
    and "fst (cache_trySaveSnapshot (cs r) (ud_ClusterID ud) (ud_NodeID ud) (ss_Index (ud_Snapshot ud)))"
    and "ud_EntriesToSave ud \<noteq> []"
    and "e_Index (last (ud_EntriesToSave ud)) < ss_Index (ud_Snapshot ud)"
  shows "\<exists>p wb' r'. saveRaftState_loop r wb ctx (ud # updates) = (Some (Panic p), wb', r') \<and>
           kvs r' = kvs r \<and>
           (p = NilContext \<and> ctx = None \<or>
            p = MaxIndexNotHandled (ss_Index (ud_Snapshot ud)) (e_Index (last (ud_EntriesToSave ud))))"
proof -
  obtain x wb1 r1 where s: "saveState r (ud_ClusterID ud) (ud_NodeID ud) (ud_State ud) wb ctx = (x, wb1, r1)"
    by (cases "saveState r (ud_ClusterID ud) (ud_NodeID ud) (ud_State ud) wb ctx")
  from s have k: "kvs r1 = kvs r" by (auto dest: saveState_frame)
  from s have c: "c_snapshotIndex (cs r1) = c_snapshotIndex (cs r)" by (rule saveState_cache)
  from assms(2) c have t: "fst (cache_trySaveSnapshot (cs r1) (ud_ClusterID ud) (ud_NodeID ud) (ss_Index (ud_Snapshot ud)))"
    by (simp add: cache_trySaveSnapshot_def split: if_splits)
  show ?thesis
  proof (cases x)
    case (Ok u)
    with s t assms k show ?thesis
      by (auto split: prod.splits bool.splits)
  next
    case (Err e)
    with s show ?thesis by (auto dest: saveState_frame)
  next
    case (Panic p)
    with s have "p = NilContext" by (auto dest: saveState_panic)
    moreover from s Panic have "ctx = None"
      by (auto simp: saveState_def split: if_splits prod.splits option.splits bool.splits)
    ultimately show ?thesis using s Panic k by simp
  qed
qed

text \<open>
  C3. When the loop of \<open>saveRaftState\<close> is at an update with a non-empty snapshot
  that \<open>trySaveSnapshot\<close> accepts and with entries whose last index is below the
  snapshot index, the call panics (with \<open>max index not handled\<close>, unless the nil
  context already made \<open>saveState\<close> panic) and the engine has not been touched. When in
  every update with entries the last index is at least the snapshot index, the call
  never panics with \<open>max index not handled\<close>.
\<close>

theorem saveRaftState_snapshot_above_entries_fatal:
  "(\<not> IsEmptySnapshot (ud_Snapshot ud) \<and>
    fst (cache_trySaveSnapshot (cs r) (ud_ClusterID ud) (ud_NodeID ud) (ss_Index (ud_Snapshot ud))) \<and>
    ud_EntriesToSave ud \<noteq> [] \<and>
    e_Index (last (ud_EntriesToSave ud)) < ss_Index (ud_Snapshot ud) \<longrightarrow>
      (\<exists>p. fst (saveRaftState_loop r wb ctx (ud # updates)) = Some (Panic p) \<and>
            (p = NilContext \<and> ctx = None \<or>
             p = MaxIndexNotHandled (ss_Index (ud_Snapshot ud)) (e_Index (last (ud_EntriesToSave ud))))) \<and>
      (\<exists>p. fst (saveRaftState r (ud # updates) ctx) = Panic p \<and>
            (p = NilContext \<and> ctx = None \<or>
             p = MaxIndexNotHandled (ss_Index (ud_Snapshot ud)) (e_Index (last (ud_EntriesToSave ud))))) \<and>
      kvs (fst (snd (saveRaftState r (ud # updates) ctx))) = kvs r) \<and>
   ((\<forall>u \<in> set us. ud_EntriesToSave u \<noteq> [] \<longrightarrow>
        ss_Index (ud_Snapshot u) \<le> e_Index (last (ud_EntriesToSave u))) \<longrightarrow>
      (\<forall>a b. fst (saveRaftState r us ctx) \<noteq> Panic (MaxIndexNotHandled a b)))"
proof (intro conjI impI allI)
  assume a: "\<not> IsEmptySnapshot (ud_Snapshot ud) \<and>
    fst (cache_trySaveSnapshot (cs r) (ud_ClusterID ud) (ud_NodeID ud) (ss_Index (ud_Snapshot ud))) \<and>
    ud_EntriesToSave ud \<noteq> [] \<and>
    e_Index (last (ud_EntriesToSave ud)) < ss_Index (ud_Snapshot ud)"
  obtain wb0 ctx0 where g: "getWriteBatch ctx = (wb0, ctx0)"
    by (cases "getWriteBatch ctx")
  then have n: "ctx0 = None \<longleftrightarrow> ctx = None"
    by (auto simp: getWriteBatch_def split: option.splits)
  from a saveRaftState_loop_head_fatal [of ud r wb0 ctx0 updates]
  obtain p wb' r' where h: "saveRaftState_loop r wb0 ctx0 (ud # updates) = (Some (Panic p), wb', r')"
    "kvs r' = kvs r"
    "p = NilContext \<and> ctx0 = None \<or>
       p = MaxIndexNotHandled (ss_Index (ud_Snapshot ud)) (e_Index (last (ud_EntriesToSave ud)))"
    by blast
  from g h have e: "saveRaftState r (ud # updates) ctx = (Panic p, r', wb')"
    by (simp add: saveRaftState_def)
  from e h show "kvs (fst (snd (saveRaftState r (ud # updates) ctx))) = kvs r" by simp
  from e h n show "\<exists>p. fst (saveRaftState r (ud # updates) ctx) = Panic p \<and>
            (p = NilContext \<and> ctx = None \<or>
             p = MaxIndexNotHandled (ss_Index (ud_Snapshot ud)) (e_Index (last (ud_EntriesToSave ud))))"
    by auto
  from a saveRaftState_loop_head_fatal [of ud r wb ctx updates]
  show "\<exists>p. fst (saveRaftState_loop r wb ctx (ud # updates)) = Some (Panic p) \<and>
            (p = NilContext \<and> ctx = None \<or>
             p = MaxIndexNotHandled (ss_Index (ud_Snapshot ud)) (e_Index (last (ud_EntriesToSave ud))))"
    by fastforce
next
  fix a b
  assume u: "\<forall>u \<in> set us. ud_EntriesToSave u \<noteq> [] \<longrightarrow>
        ss_Index (ud_Snapshot u) \<le> e_Index (last (ud_EntriesToSave u))"
  obtain wb0 ctx0 where g: "getWriteBatch ctx = (wb0, ctx0)"
    by (cases "getWriteBatch ctx")
  obtain y wb1 r1 where l: "saveRaftState_loop r wb0 ctx0 us = (y, wb1, r1)"
    by (cases "saveRaftState_loop r wb0 ctx0 us")
  from saveRaftState_loop_no_max_index_panic [OF u, of r wb0 ctx0 a b] l
  have y: "y \<noteq> Some (Panic (MaxIndexNotHandled a b))" by simp
  show "fst (saveRaftState r us ctx) \<noteq> Panic (MaxIndexNotHandled a b)"
  proof (cases y)
    case (Some z)
    with g l y show ?thesis by (simp add: saveRaftState_def)
  next
    case None
    with g l show ?thesis
      by (auto simp: saveRaftState_def split: prod.splits dest: CommitWriteBatch_no_panic)
  qed
qed

theorem saveRaftState_snapshot_above_entries_fatal_witness:
  "\<not> IsEmptySnapshot (ud_Snapshot ex_ud_bad) \<and>
   fst (cache_trySaveSnapshot (cs ex_db) (ud_ClusterID ex_ud_bad) (ud_NodeID ex_ud_bad)
          (ss_Index (ud_Snapshot ex_ud_bad))) \<and>
   ud_EntriesToSave ex_ud_bad \<noteq> [] \<and>
   e_Index (last (ud_EntriesToSave ex_ud_bad)) < ss_Index (ud_Snapshot ex_ud_bad) \<and>
   fst (saveRaftState ex_db [ex_ud_bad] ex_ctx) = Panic (MaxIndexNotHandled 5 3) \<and>
   kvs (fst (snd (saveRaftState ex_db [ex_ud_bad] ex_ctx))) = kvs ex_db \<and>
   (\<forall>a b. fst (saveRaftState ex_db [ex_ud] ex_ctx) \<noteq> Panic (MaxIndexNotHandled a b))"
proof -
  have h: "\<not> IsEmptySnapshot (ud_Snapshot ex_ud_bad) \<and>
     fst (cache_trySaveSnapshot (cs ex_db) (ud_ClusterID ex_ud_bad) (ud_NodeID ex_ud_bad)
          (ss_Index (ud_Snapshot ex_ud_bad))) \<and>
     ud_EntriesToSave ex_ud_bad \<noteq> [] \<and>
     e_Index (last (ud_EntriesToSave ex_ud_bad)) < ss_Index (ud_Snapshot ex_ud_bad)"
    by (simp add: ex_ud_bad_def ex_defs IsEmptySnapshot_def cache_trySaveSnapshot_def newCache_def)
  have v: "\<forall>u \<in> set [ex_ud]. ud_EntriesToSave u \<noteq> [] \<longrightarrow>
        ss_Index (ud_Snapshot u) \<le> e_Index (last (ud_EntriesToSave u))"
    by (simp add: ex_defs emptySnapshot_def)
  have s: "ss_Index (ud_Snapshot ex_ud_bad) = 5" "e_Index (last (ud_EntriesToSave ex_ud_bad)) = 3"
    "ex_ctx \<noteq> None"
    by (simp_all add: ex_ud_bad_def ex_defs)
  show ?thesis
    using saveRaftState_snapshot_above_entries_fatal
            [of ex_ud_bad ex_db "[]" ex_ctx "[]" "[ex_ud]"] h v s
    by auto
qed

subsection \<open>Persisting the state once\<close>

text \<open>
  C5. For a non-empty state, \<open>saveState\<close> stages a state record only when the state
  differs from the value cached for the replica (or none is cached), and then (with a
  context) stages exactly that one record; afterwards the state is the cached one, and
  a second call with the same state succeeds and stages nothing.
\<close>

theorem saveState_idempotent:
  assumes "\<not> IsEmptyState st"
    and "saveState r clusterID nodeID st wb ctx = (x, wb1, r1)"
  shows "(wb1 \<noteq> wb \<longrightarrow> c_ps (cs r) (clusterID, nodeID) \<noteq> Some st) \<and>
         (c_ps (cs r) (clusterID, nodeID) \<noteq> Some st \<and> ctx \<noteq> None \<longrightarrow>
            x = Ok () \<and> wb1 = wb @ [Put (StateKey clusterID nodeID) (StateVal st)]) \<and>
         c_ps (cs r1) (clusterID, nodeID) = Some st \<and>
         saveState r1 clusterID nodeID st wb1 ctx = (Ok (), wb1, r1)"
  using assms
  by (auto simp: saveState_def cache_setState_def split: if_splits option.splits)

theorem saveState_idempotent_witness:
  "\<not> IsEmptyState (ud_State ex_ud) \<and>
   c_ps (cs ex_db) (1, 1) \<noteq> Some (ud_State ex_ud) \<and> ex_ctx \<noteq> None \<and>
   saveState ex_db 1 1 (ud_State ex_ud) [] ex_ctx =
     (Ok (), [Put (StateKey 1 1) (StateVal (ud_State ex_ud))],
      ex_db\<lparr>cs := (cs ex_db)\<lparr>c_ps := (c_ps (cs ex_db))((1, 1) \<mapsto> ud_State ex_ud)\<rparr>\<rparr>) \<and>
   saveState (ex_db\<lparr>cs := (cs ex_db)\<lparr>c_ps := (c_ps (cs ex_db))((1, 1) \<mapsto> ud_State ex_ud)\<rparr>\<rparr>)
       1 1 (ud_State ex_ud) [Put (StateKey 1 1) (StateVal (ud_State ex_ud))] ex_ctx =
     (Ok (), [Put (StateKey 1 1) (StateVal (ud_State ex_ud))],
      ex_db\<lparr>cs := (cs ex_db)\<lparr>c_ps := (c_ps (cs ex_db))((1, 1) \<mapsto> ud_State ex_ud)\<rparr>\<rparr>)"
proof -
  have a: "\<not> IsEmptyState (ud_State ex_ud)"
    by (simp add: ex_defs IsEmptyState_def)
  have b: "saveState ex_db 1 1 (ud_State ex_ud) [] ex_ctx =
     (Ok (), [Put (StateKey 1 1) (StateVal (ud_State ex_ud))],
      ex_db\<lparr>cs := (cs ex_db)\<lparr>c_ps := (c_ps (cs ex_db))((1, 1) \<mapsto> ud_State ex_ud)\<rparr>\<rparr>)"
    by (simp add: ex_defs saveState_def IsEmptyState_def cache_setState_def newCache_def)
  have c: "c_ps (cs ex_db) (1, 1) \<noteq> Some (ud_State ex_ud)" "ex_ctx \<noteq> None"
    by (simp_all add: ex_defs newCache_def)
  from saveState_idempotent [OF a b] a b c show ?thesis
    by blast
qed

subsection \<open>The max index on a cache miss\<close>

text \<open>
  C6. The claim: on a cache miss \<open>getMaxIndex\<close> reads the store, returns the stored
  value and writes it back into the cache, so that the next call is answered from the
  cache. The code returns the stored value and leaves the cache as it was. At a log DB
  with max index 5 stored for replica (1, 1) and nothing cached: the first call returns
  5, the cache still has no max index for the replica, and the second call reads the
  store again.
\<close>

theorem getMaxIndex_no_write_back_counterexample:
  "cache_getMaxIndex (cs ex_db_maxindex) 1 1 = None \<and>
   map_of (store (kvs ex_db_maxindex)) (MaxIndexKey 1 1) = Some (MaxIndexVal 5) \<and>
   fst (getMaxIndex ex_db_maxindex 1 1) = Ok 5 \<and>
   cache_getMaxIndex (cs (snd (getMaxIndex ex_db_maxindex 1 1))) 1 1 = None \<and>
   gets (calls (kvs (snd (getMaxIndex ex_db_maxindex 1 1)))) = [MaxIndexKey 1 1] \<and>
   gets (calls (kvs (snd (getMaxIndex (snd (getMaxIndex ex_db_maxindex 1 1)) 1 1)))) =
     [MaxIndexKey 1 1, MaxIndexKey 1 1]"
  by (simp add: ex_db_maxindex_def ex_defs getMaxIndex_def cache_getMaxIndex_def newCache_def
      GetValue_def engine_call_def getMaxIndex_op_def)

text \<open>
  C6, as amended. When no max index is cached for the replica, the store holds one and
  the engine does not fail, \<open>getMaxIndex\<close> reads the store and returns the stored
  value; the cache is unchanged, and a second call reads the store again and returns
  the same value.
\<close>

theorem getMaxIndex_reads_storage_each_time:
  assumes "cache_getMaxIndex (cs r) clusterID nodeID = None"
    and "map_of (store (kvs r)) (MaxIndexKey clusterID nodeID) = Some (MaxIndexVal v)"
    and "faults (kvs r) = []"
    and "getMaxIndex r clusterID nodeID = (x, r1)"
    and "getMaxIndex r1 clusterID nodeID = (y, r2)"
  shows "x = Ok v \<and> cs r1 = cs r \<and> store (kvs r1) = store (kvs r) \<and>
         calls (kvs r1) = calls (kvs r) @ [CallGet (MaxIndexKey clusterID nodeID)] \<and>
         y = Ok v \<and> cs r2 = cs r \<and>
         calls (kvs r2) =
           calls (kvs r) @ [CallGet (MaxIndexKey clusterID nodeID), CallGet (MaxIndexKey clusterID nodeID)]"
  using assms
  by (auto simp: getMaxIndex_def GetValue_def engine_call_def getMaxIndex_op_def
      split: option.splits list.splits)

theorem getMaxIndex_reads_storage_each_time_witness:
  "cache_getMaxIndex (cs ex_db_maxindex) 1 1 = None \<and>
   map_of (store (kvs ex_db_maxindex)) (MaxIndexKey 1 1) = Some (MaxIndexVal 5) \<and>
   faults (kvs ex_db_maxindex) = [] \<and>
   fst (getMaxIndex ex_db_maxindex 1 1) = Ok 5 \<and>
   cs (snd (getMaxIndex ex_db_maxindex 1 1)) = cs ex_db_maxindex \<and>
   fst (getMaxIndex (snd (getMaxIndex ex_db_maxindex 1 1)) 1 1) = Ok 5 \<and>
   calls (kvs (snd (getMaxIndex (snd (getMaxIndex ex_db_maxindex 1 1)) 1 1))) =
     calls (kvs ex_db_maxindex) @ [CallGet (MaxIndexKey 1 1), CallGet (MaxIndexKey 1 1)]"
proof -
  have a: "cache_getMaxIndex (cs ex_db_maxindex) 1 1 = None"
    by (simp add: ex_db_maxindex_def ex_defs cache_getMaxIndex_def newCache_def)
  have b: "map_of (store (kvs ex_db_maxindex)) (MaxIndexKey 1 1) = Some (MaxIndexVal 5)"
    by (simp add: ex_db_maxindex_def ex_defs)
  have c: "faults (kvs ex_db_maxindex) = []"
    by (simp add: ex_db_maxindex_def ex_defs)
  have d: "getMaxIndex ex_db_maxindex 1 1 =
      (fst (getMaxIndex ex_db_maxindex 1 1), snd (getMaxIndex ex_db_maxindex 1 1))"
    by simp
  have e: "getMaxIndex (snd (getMaxIndex ex_db_maxindex 1 1)) 1 1 =
      (fst (getMaxIndex (snd (getMaxIndex ex_db_maxindex 1 1)) 1 1),
       snd (getMaxIndex (snd (getMaxIndex ex_db_maxindex 1 1)) 1 1))"
    by simp
  from getMaxIndex_reads_storage_each_time [OF a b c d e] a b c show ?thesis
    by simp
qed

subsection \<open>The entry manager of an opened log DB\<close>

text \<open>
  C7. The claim: \<open>openRDB\<close> detects the entry format from the content of the store,
  so that a store with batched content is not opened with the plain entry manager.
  \<open>openRDB\<close> constructs the plain entry manager whatever the store holds, and makes
  no engine call (\<open>hasEntryRecord\<close> is not called by it). A store whose only record
  holds a batch of entries, in which \<open>hasEntryRecord\<close> does find an entry record, is
  opened with the plain entry manager.
\<close>

theorem openRDB_plain_on_batched_counterexample:
  "store ex_kv_batched =
     [(EntryKey 1 1 1, EntryBatchVal [\<lparr>e_Index = 1, e_Term = 1, e_Cmd = [7]\<rparr>,
                                      \<lparr>e_Index = 2, e_Term = 1, e_Cmd = [8]\<rparr>])] \<and>
   fst (hasEntryRecord ex_kv_batched) = Ok True \<and>
   openRDB ex_openPebbleDB ''logdb'' =
     Ok \<lparr>cs = newCache, kvs = ex_kv_batched, entries = newPlainEntries\<rparr> \<and>
   em_binaryFormat newPlainEntries = PlainFormat \<and>
   calls ex_kv_batched = []"
  by (simp add: ex_kv_batched_def ex_openPebbleDB_def ex_defs openRDB_def hasEntryRecord_def
      IterateValue_def engine_call_def in_range_def MaxUint64_def newPlainEntries_def)

lemma saveSnapshots_loop_frame:
  "saveSnapshots_loop r wb toSave updates = (x, wb', t', r') \<Longrightarrow> entries r' = entries r"
proof (induction r wb toSave updates rule: saveSnapshots_loop.induct)
  case (1 r wb toSave)
  then show ?case by simp
next
  case (2 r wb toSave ud updates)
  show ?case
    using "2.prems" "2.IH"
    apply (simp split: prod.splits result.splits if_splits bool.splits)
    apply (auto dest!: saveSnapshot_frame)
    done
qed

lemma saveRaftState_entries: "entries (fst (snd (saveRaftState r updates ctx))) = entries r"
  by (auto simp: saveRaftState_def split: prod.splits option.splits
      dest!: saveRaftState_loop_frame saveEntries_frame)

lemma saveSnapshots_entries: "entries (snd (saveSnapshots r updates)) = entries r"
  by (auto simp: saveSnapshots_def split: prod.splits option.splits dest!: saveSnapshots_loop_frame)

lemma removeNodeData_entries: "entries (snd (removeNodeData r clusterID nodeID)) = entries r"
  by (auto simp: removeNodeData_def removeEntriesTo_def split: prod.splits result.splits
      dest!: listSnapshots_frame)

lemma getMaxIndex_entries: "entries (snd (getMaxIndex r clusterID nodeID)) = entries r"
  by (auto simp: getMaxIndex_def split: prod.splits option.splits)

lemma iterateEntries_entries:
  "entries (snd (iterateEntries r ents sz clusterID nodeID low high maxSize)) = entries r"
  using getMaxIndex_entries [of r clusterID nodeID]
  by (auto simp: iterateEntries_def split: prod.splits result.splits)

lemma getSnapshot_entries: "entries (snd (getSnapshot r clusterID nodeID)) = entries r"
  by (auto simp: getSnapshot_def split: prod.splits result.splits dest!: listSnapshots_frame)

text \<open>
  C7, as amended. When the engine opens, \<open>openRDB\<close> returns a log DB with a fresh
  cache, the engine as it was opened (not read) and the plain entry manager, whatever
  the store holds. The entry manager is then fixed: no operation of the log DB changes
  it.
\<close>

theorem openRDB_always_plain:
  "(openPebbleDB dir = Ok kv \<longrightarrow>
      openRDB openPebbleDB dir = Ok \<lparr>cs = newCache, kvs = kv, entries = newPlainEntries\<rparr>) \<and>
   entries (fst (snd (saveRaftState r updates ctx))) = entries r \<and>
   entries (snd (saveSnapshots r updates)) = entries r \<and>
   entries (snd (removeNodeData r clusterID nodeID)) = entries r \<and>
   entries (snd (getMaxIndex r clusterID nodeID)) = entries r \<and>
   entries (snd (getState r clusterID nodeID)) = entries r \<and>
   entries (snd (getBootstrapInfo r clusterID nodeID)) = entries r \<and>
   entries (snd (getSnapshot r clusterID nodeID)) = entries r \<and>
   entries (snd (iterateEntries r ents sz clusterID nodeID low high maxSize)) = entries r"
  by (simp add: openRDB_def saveRaftState_entries saveSnapshots_entries removeNodeData_entries
      getMaxIndex_entries getSnapshot_entries iterateEntries_entries getState_def
      getBootstrapInfo_def split: prod.splits)

theorem openRDB_always_plain_witness:
  "ex_openPebbleDB ''logdb'' = Ok ex_kv_batched \<and>
   openRDB ex_openPebbleDB ''logdb'' =
     Ok \<lparr>cs = newCache, kvs = ex_kv_batched, entries = newPlainEntries\<rparr>"
proof -
  have a: "ex_openPebbleDB ''logdb'' = Ok ex_kv_batched"
    by (simp add: ex_openPebbleDB_def)
  from openRDB_always_plain [of ex_openPebbleDB "''logdb''" ex_kv_batched] a show ?thesis
    by blast
qed

subsection \<open>Removing the data of a replica\<close>

lemma saveRemoveNodeData_loop_eq:
  "saveRemoveNodeData_loop wb snapshots c n =
     wb @ map (\<lambda>ss. Delete (SnapshotKey c n (ss_Index ss))) snapshots"
  by (induction wb snapshots c n rule: saveRemoveNodeData_loop.induct) auto

lemma saveRemoveNodeData_eq:
  "saveRemoveNodeData wb snapshots c n =
     wb @ map Delete ([StateKey c n, BootstrapKey c n, MaxIndexKey c n] @
                      map (\<lambda>ss. SnapshotKey c n (ss_Index ss)) snapshots)"
  by (simp add: saveRemoveNodeData_def saveRemoveNodeData_loop_eq comp_def)

lemma apply_batch_deletes:
  "apply_batch (map Delete ks) s = filter (\<lambda>r. fst r \<notin> set ks) s"
proof (induction ks arbitrary: s)
  case Nil
  then show ?case by (simp add: apply_batch_def)
next
  case (Cons k ks)
  have "apply_batch (map Delete (k # ks)) s = apply_batch (map Delete ks) (AList.delete k s)"
    by (simp add: apply_batch_def)
  also have "\<dots> = filter (\<lambda>r. fst r \<notin> set ks) (AList.delete k s)"
    by (rule Cons.IH)
  also have "\<dots> = filter (\<lambda>r. fst r \<notin> set (k # ks)) s"
    by (auto simp: AList.delete_eq intro: filter_cong)
  finally show ?case .
qed

lemma map_of_filter_keys:
  "map_of (filter (\<lambda>r. P (fst r)) s) k = (if P k then map_of s k else None)"
  by (induction s) auto

lemma map_of_filter_out:
  "k \<in> set ks \<Longrightarrow> map_of (filter (\<lambda>r. fst r \<notin> set ks) s) k = None"
  by (induction s) auto

lemma listSnapshots_Ok:
  assumes "fst (listSnapshots r c n i) = Ok snapshots" and "faults (kvs r) = f # fs"
  shows "f = None \<and>
         listSnapshots r c n i =
           (Ok snapshots,
            r\<lparr>kvs := (kvs r)\<lparr>faults := fs,
                calls := calls (kvs r) @ [CallIterate (SnapshotKey c n 0) (SnapshotKey c n i) True]\<rparr>\<rparr>)"
  using assms
  by (auto simp: listSnapshots_def IterateValue_def engine_call_def
      split: prod.splits result.splits option.splits)

text \<open>
  C10. \<open>removeNodeData\<close> is not atomic as a whole. In an execution where the
  snapshot listing and the commit succeed and the ranged deletion of the entries
  fails (plain entry manager), the call returns that error; the engine has by then
  committed one batch that deletes the state, bootstrap, max-index and listed
  snapshot records, and was asked for the ranged deletion in a separate, later call;
  those metadata records are gone, the cached max index is 0, and every entry record
  is still in the store.
\<close>

theorem removeNodeData_not_atomic:
  assumes "entries r = newPlainEntries"
    and "faults (kvs r) = None # None # Some e # fs"
    and "fst (listSnapshots r clusterID nodeID MaxUint64) = Ok snapshots"
    and "removeNodeData r clusterID nodeID = (x, r')"
  shows "x = Err e \<and>
         calls (kvs r') = calls (kvs r) @
           [CallIterate (SnapshotKey clusterID nodeID 0) (SnapshotKey clusterID nodeID MaxUint64) True,
            CallCommit (saveRemoveNodeData [] snapshots clusterID nodeID),
            CallBulkRemove (EntryKey clusterID nodeID 0) (EntryKey clusterID nodeID MaxUint64)] \<and>
         saveRemoveNodeData [] snapshots clusterID nodeID =
           Delete (StateKey clusterID nodeID) # Delete (BootstrapKey clusterID nodeID) #
           Delete (MaxIndexKey clusterID nodeID) #
           map (\<lambda>ss. Delete (SnapshotKey clusterID nodeID (ss_Index ss))) snapshots \<and>
         store (kvs r') = apply_batch (saveRemoveNodeData [] snapshots clusterID nodeID) (store (kvs r)) \<and>
         map_of (store (kvs r')) (StateKey clusterID nodeID) = None \<and>
         map_of (store (kvs r')) (BootstrapKey clusterID nodeID) = None \<and>
         map_of (store (kvs r')) (MaxIndexKey clusterID nodeID) = None \<and>
         (\<forall>ss \<in> set snapshots.
            map_of (store (kvs r')) (SnapshotKey clusterID nodeID (ss_Index ss)) = None) \<and>
         cache_getMaxIndex (cs r') clusterID nodeID = Some 0 \<and>
         (\<forall>k v. (k, v) \<in> set (store (kvs r)) \<and> (\<exists>c n i. k = EntryKey c n i)
                 \<longrightarrow> (k, v) \<in> set (store (kvs r')))"
proof -
  let ?wb = "saveRemoveNodeData [] snapshots clusterID nodeID"
  let ?ks = "[StateKey clusterID nodeID, BootstrapKey clusterID nodeID, MaxIndexKey clusterID nodeID] @
             map (\<lambda>ss. SnapshotKey clusterID nodeID (ss_Index ss)) snapshots"
  have wb: "?wb = map Delete ?ks"
    by (simp add: saveRemoveNodeData_eq)
  from listSnapshots_Ok [OF assms(3) assms(2)]
  have l: "listSnapshots r clusterID nodeID MaxUint64 =
           (Ok snapshots,
            r\<lparr>kvs := (kvs r)\<lparr>faults := None # Some e # fs,
                calls := calls (kvs r) @
                  [CallIterate (SnapshotKey clusterID nodeID 0) (SnapshotKey clusterID nodeID MaxUint64) True]\<rparr>\<rparr>)"
    by simp
  from assms(4) l assms(1)
  have res: "x = Err e"
    "calls (kvs r') = calls (kvs r) @
           [CallIterate (SnapshotKey clusterID nodeID 0) (SnapshotKey clusterID nodeID MaxUint64) True,
            CallCommit ?wb,
            CallBulkRemove (EntryKey clusterID nodeID 0) (EntryKey clusterID nodeID MaxUint64)]"
    "store (kvs r') = apply_batch ?wb (store (kvs r))"
    "cache_getMaxIndex (cs r') clusterID nodeID = Some 0"
    by (auto simp: removeNodeData_def getWriteBatch_def CommitWriteBatch_def engine_call_def
        removeEntriesTo_def newPlainEntries_def plain_rangedOp_def BulkRemoveEntries_def
        cache_setMaxIndex_def cache_getMaxIndex_def)
  have st: "store (kvs r') = filter (\<lambda>r. fst r \<notin> set ?ks) (store (kvs r))"
    unfolding res(3) wb by (rule apply_batch_deletes)
  have gone: "\<And>k. k \<in> set ?ks \<Longrightarrow> map_of (store (kvs r')) k = None"
    unfolding st by (rule map_of_filter_out)
  have ents: "\<forall>k v. (k, v) \<in> set (store (kvs r)) \<and> (\<exists>c n i. k = EntryKey c n i)
                 \<longrightarrow> (k, v) \<in> set (store (kvs r'))"
    unfolding st by auto
  show ?thesis
    using res gone ents wb by auto
qed

theorem removeNodeData_not_atomic_witness:
  "entries ex_db_removal_fails = newPlainEntries \<and>
   faults (kvs ex_db_removal_fails) = [None, None, Some ErrStorageIO] \<and>
   fst (listSnapshots ex_db_removal_fails 1 1 MaxUint64) =
     Ok [\<lparr>ss_Index = 3, ss_Term = 1, ss_Filepath = ''snapshot-3''\<rparr>] \<and>
   fst (removeNodeData ex_db_removal_fails 1 1) = Err ErrStorageIO \<and>
   map_of (store (kvs (snd (removeNodeData ex_db_removal_fails 1 1)))) (StateKey 1 1) = None \<and>
   map_of (store (kvs (snd (removeNodeData ex_db_removal_fails 1 1)))) (BootstrapKey 1 1) = None \<and>
   map_of (store (kvs (snd (removeNodeData ex_db_removal_fails 1 1)))) (MaxIndexKey 1 1) = None \<and>
   map_of (store (kvs (snd (removeNodeData ex_db_removal_fails 1 1)))) (SnapshotKey 1 1 3) = None \<and>
   cache_getMaxIndex (cs (snd (removeNodeData ex_db_removal_fails 1 1))) 1 1 = Some 0 \<and>
   (EntryKey 1 1 4, EntryVal \<lparr>e_Index = 4, e_Term = 2, e_Cmd = [7]\<rparr>)
     \<in> set (store (kvs (snd (removeNodeData ex_db_removal_fails 1 1))))"
proof -
  have a: "entries ex_db_removal_fails = newPlainEntries"
    by (simp add: ex_db_removal_fails_def ex_defs)
  have b: "faults (kvs ex_db_removal_fails) = None # None # Some ErrStorageIO # []"
    by (simp add: ex_db_removal_fails_def ex_defs)
  have c: "fst (listSnapshots ex_db_removal_fails 1 1 MaxUint64) =
     Ok [\<lparr>ss_Index = 3, ss_Term = 1, ss_Filepath = ''snapshot-3''\<rparr>]"
    by (simp add: ex_db_removal_fails_def ex_defs ex_store_def listSnapshots_def IterateValue_def
        engine_call_def in_range_def MaxUint64_def listSnapshots_op_def)
  have d: "removeNodeData ex_db_removal_fails 1 1 =
     (fst (removeNodeData ex_db_removal_fails 1 1), snd (removeNodeData ex_db_removal_fails 1 1))"
    by simp
  have e: "(EntryKey 1 1 4, EntryVal \<lparr>e_Index = 4, e_Term = 2, e_Cmd = [7]\<rparr>)
     \<in> set (store (kvs ex_db_removal_fails))"
    by (simp add: ex_db_removal_fails_def ex_defs ex_store_def)
  from removeNodeData_not_atomic [OF a b c d] a b c e show ?thesis
    by auto
qed

subsection \<open>Iterating over an empty range\<close>

lemma in_range_entries:
  "in_range (EntryKey c n low) (EntryKey c n hi) False k \<longleftrightarrow>
     (\<exists>i. k = EntryKey c n i \<and> low \<le> i \<and> i < hi)"
  by (cases k) (auto simp: in_range_def)

lemma getMaxIndex_frame:
  "getMaxIndex r c n = (x, r1) \<Longrightarrow>
     store (kvs r1) = store (kvs r) \<and> entries r1 = entries r \<and> cs r1 = cs r \<and>
     (faults (kvs r) = [] \<longrightarrow> faults (kvs r1) = [])"
  by (auto simp: getMaxIndex_def GetValue_def engine_call_def
      split: option.splits prod.splits list.splits)

lemma plain_iterate_nothing_in_range:
  assumes "faults kv = []"
    and "\<forall>k \<in> fst ` set (store kv). \<forall>i. k = EntryKey c n i \<longrightarrow>
           \<not> (low \<le> i \<and> i < min high (maxIndex + 1))"
  shows "fst (plain_iterate kv ents maxIndex sz c n low high maxSize) = Ok (ents, sz)"
proof -
  have "filter (\<lambda>r. in_range (EntryKey c n low) (EntryKey c n (min high (maxIndex + 1))) False (fst r))
          (store kv) = []"
    using assms(2) unfolding in_range_entries filter_empty_conv by force
  with assms(1) show ?thesis
    by (simp add: plain_iterate_def IterateValue_def engine_call_def)
qed

text \<open>
  C9. When the max-index lookup reports that no log was saved, \<open>iterateEntries\<close>
  returns the caller's entries and size unchanged, with no error (whatever the entry
  manager). With the plain entry manager and an engine that does not fail, it returns
  them unchanged, with no error, also when the requested range is empty (its upper end
  \<open>min(high, maxIndex+1)\<close> is not above \<open>low\<close>) or holds no stored entry (it was
  compacted).
\<close>

theorem iterateEntries_empty_is_not_an_error:
  "(fst (getMaxIndex r clusterID nodeID) = Err ErrNoSavedLog \<longrightarrow>
      fst (iterateEntries r ents sz clusterID nodeID low high maxSize) = Ok (ents, sz)) \<and>
   (entries r = newPlainEntries \<and> faults (kvs r) = [] \<and>
    fst (getMaxIndex r clusterID nodeID) = Ok maxIndex \<and>
    (min high (maxIndex + 1) \<le> low \<or>
     (\<forall>k \<in> fst ` set (store (kvs r)). \<forall>i. k = EntryKey clusterID nodeID i \<longrightarrow>
        \<not> (low \<le> i \<and> i < min high (maxIndex + 1)))) \<longrightarrow>
      fst (iterateEntries r ents sz clusterID nodeID low high maxSize) = Ok (ents, sz))"
proof (intro conjI impI)
  assume "fst (getMaxIndex r clusterID nodeID) = Err ErrNoSavedLog"
  then show "fst (iterateEntries r ents sz clusterID nodeID low high maxSize) = Ok (ents, sz)"
    by (auto simp: iterateEntries_def split: prod.splits result.splits)
next
  assume a: "entries r = newPlainEntries \<and> faults (kvs r) = [] \<and>
    fst (getMaxIndex r clusterID nodeID) = Ok maxIndex \<and>
    (min high (maxIndex + 1) \<le> low \<or>
     (\<forall>k \<in> fst ` set (store (kvs r)). \<forall>i. k = EntryKey clusterID nodeID i \<longrightarrow>
        \<not> (low \<le> i \<and> i < min high (maxIndex + 1))))"
  obtain r1 where g: "getMaxIndex r clusterID nodeID = (Ok maxIndex, r1)"
    using a by (cases "getMaxIndex r clusterID nodeID") auto
  from getMaxIndex_frame [OF g] a
  have f: "store (kvs r1) = store (kvs r)" "entries r1 = newPlainEntries" "faults (kvs r1) = []"
    by simp_all
  from a have "min high (maxIndex + 1) \<le> low \<or>
     (\<forall>k \<in> fst ` set (store (kvs r)). \<forall>i. k = EntryKey clusterID nodeID i \<longrightarrow>
        \<not> (low \<le> i \<and> i < min high (maxIndex + 1)))"
    by simp
  then have "\<forall>k \<in> fst ` set (store (kvs r)). \<forall>i. k = EntryKey clusterID nodeID i \<longrightarrow>
        \<not> (low \<le> i \<and> i < min high (maxIndex + 1))"
  proof
    assume "min high (maxIndex + 1) \<le> low"
    then have "\<And>i. \<not> (low \<le> i \<and> i < min high (maxIndex + 1))"
      by (meson leD order_trans)
    then show ?thesis by blast
  next
    assume "\<forall>k \<in> fst ` set (store (kvs r)). \<forall>i. k = EntryKey clusterID nodeID i \<longrightarrow>
        \<not> (low \<le> i \<and> i < min high (maxIndex + 1))"
    then show ?thesis .
  qed
  with f have "fst (plain_iterate (kvs r1) ents maxIndex sz clusterID nodeID low high maxSize) = Ok (ents, sz)"
    by (intro plain_iterate_nothing_in_range) simp_all
  with g f show "fst (iterateEntries r ents sz clusterID nodeID low high maxSize) = Ok (ents, sz)"
    by (auto simp: iterateEntries_def newPlainEntries_def Wrapf_def split: prod.splits)
qed

theorem iterateEntries_empty_is_not_an_error_witness:
  "fst (getMaxIndex ex_db 1 1) = Err ErrNoSavedLog \<and>
   fst (iterateEntries ex_db [] 0 1 1 1 10 100) = Ok ([], 0) \<and>
   entries ex_db_full = newPlainEntries \<and> faults (kvs ex_db_full) = [] \<and>
   fst (getMaxIndex ex_db_full 1 1) = Ok 5 \<and>
   min 4 (5 + 1) \<le> (4 :: u64) \<and>
   fst (iterateEntries ex_db_full [] 0 1 1 4 4 100) = Ok ([], 0) \<and>
   fst (iterateEntries ex_db_full [] 0 1 1 1 4 100) = Ok ([], 0)"
proof -
  have a: "fst (getMaxIndex ex_db 1 1) = Err ErrNoSavedLog"
    by (simp add: ex_defs getMaxIndex_def cache_getMaxIndex_def newCache_def GetValue_def
        engine_call_def getMaxIndex_op_def)
  have b: "entries ex_db_full = newPlainEntries" "faults (kvs ex_db_full) = []"
    "fst (getMaxIndex ex_db_full 1 1) = Ok 5"
    by (simp_all add: ex_db_full_def ex_store_def ex_defs getMaxIndex_def cache_getMaxIndex_def
        newCache_def GetValue_def engine_call_def getMaxIndex_op_def)
  have c: "min 4 (5 + 1) \<le> (4 :: u64)"
    by simp
  have d: "\<forall>k \<in> fst ` set (store (kvs ex_db_full)). \<forall>i. k = EntryKey 1 1 i \<longrightarrow>
        \<not> (1 \<le> i \<and> i < min 4 (5 + 1))"
    by (simp add: ex_db_full_def ex_store_def ex_defs)
  from iterateEntries_empty_is_not_an_error [of ex_db 1 1 "[]" 0 1 10 100]
    iterateEntries_empty_is_not_an_error [of ex_db_full 1 1 "[]" 0 4 4 100 5]
    iterateEntries_empty_is_not_an_error [of ex_db_full 1 1 "[]" 0 1 4 100 5]
    a b c d
  show ?thesis by blast
qed

subsection \<open>One snapshot record per replica\<close>

lemma is_snapshot_key_iff: "is_snapshot_key c n k \<longleftrightarrow> (\<exists>i. k = SnapshotKey c n i)"
  by (cases k) (auto simp: is_snapshot_key_def)

lemma in_range_snapshots:
  "in_range (SnapshotKey c n 0) (SnapshotKey c n MaxUint64) True k \<longleftrightarrow> is_snapshot_key c n k"
proof -
  have m: "MaxUint64 = - 1" by (simp add: MaxUint64_def)
  have "\<And>i. i \<le> MaxUint64" unfolding m by (rule word_n1_ge)
  then show ?thesis
    by (cases k) (auto simp: in_range_def is_snapshot_key_def)
qed

lemma listSnapshots_op_snapshot:
  "listSnapshots_op k (SnapshotVal ss) acc = (Ok True, acc @ [ss])"
  by (simp add: listSnapshots_op_def)

lemma listSnapshots_op_Ok:
  "listSnapshots_op k v acc = (Ok b, acc') \<Longrightarrow> \<exists>ss. v = SnapshotVal ss"
  by (cases v) (simp_all add: listSnapshots_op_def)

lemma iterate_records_listSnapshots_step:
  assumes "iterate_records listSnapshots_op ((k, v) # rs) acc = (Ok u, out)"
  shows "\<exists>ss. v = SnapshotVal ss \<and> iterate_records listSnapshots_op rs (acc @ [ss]) = (Ok u, out)"
proof (cases v)
  case (SnapshotVal ss)
  with assms show ?thesis by (simp add: listSnapshots_op_snapshot)
qed (use assms in \<open>simp_all add: listSnapshots_op_def\<close>)

lemma iterate_records_listSnapshots_Ok:
  "iterate_records listSnapshots_op rs acc = (Ok u, out) \<Longrightarrow>
     \<exists>xs. out = acc @ xs \<and> map snd rs = map SnapshotVal xs"
proof (induction rs arbitrary: acc)
  case Nil
  then show ?case by simp
next
  case (Cons a rs)
  obtain k v where a: "a = (k, v)" by (cases a)
  from Cons.prems a iterate_records_listSnapshots_step [of k v rs acc u out]
  obtain ss where v: "v = SnapshotVal ss"
    and rest: "iterate_records listSnapshots_op rs (acc @ [ss]) = (Ok u, out)"
    by blast
  from Cons.IH [OF rest] obtain xs where "out = (acc @ [ss]) @ xs" "map snd rs = map SnapshotVal xs"
    by blast
  with a v show ?case by (intro exI [of _ "ss # xs"]) simp
qed

lemma listSnapshots_lists_store:
  assumes "listSnapshots r c n MaxUint64 = (Ok snapshots, r')"
  shows "map SnapshotVal snapshots =
           map snd (sort_key (\<lambda>r. key_code (fst r)) (snapshot_records c n (store (kvs r))))"
proof -
  from assms obtain u kv' where
    "iterate_records listSnapshots_op
       (sort_key (\<lambda>r. key_code (fst r)) (snapshot_records c n (store (kvs r)))) [] = (Ok u, snapshots)"
    by (auto simp: listSnapshots_def IterateValue_def engine_call_def in_range_snapshots
        snapshot_records_def split: prod.splits result.splits option.splits list.splits)
  from iterate_records_listSnapshots_Ok [OF this] show ?thesis by simp
qed

lemma saveSnapshot_loop_eq:
  "saveSnapshot_loop wb ud snapshots =
     wb @ map (\<lambda>ss. Delete (SnapshotKey (ud_ClusterID ud) (ud_NodeID ud) (ss_Index ss)))
            (filter (\<lambda>ss. ss_Index ss < ss_Index (ud_Snapshot ud)) snapshots)"
  by (induction wb ud snapshots rule: saveSnapshot_loop.induct) auto



lemma keyed_snapshot_keys:
  assumes "list_all keyed_by_index recs" and "list_all (\<lambda>r. is_snapshot_key c n (fst r)) recs"
    and "map SnapshotVal snapshots = map snd recs"
  shows "map (\<lambda>ss. SnapshotKey c n (ss_Index ss)) snapshots = map fst recs"
  using assms
proof (induction recs arbitrary: snapshots)
  case Nil
  then show ?case by simp
next
  case (Cons a recs)
  then obtain ss rest where s: "snapshots = ss # rest" by (cases snapshots) auto
  with Cons.prems have "snd a = SnapshotVal ss" "map SnapshotVal rest = map snd recs" by auto
  moreover from Cons.prems obtain i where "fst a = SnapshotKey c n i"
    by (auto simp: is_snapshot_key_iff)
  ultimately show ?case
    using Cons.prems Cons.IH [of rest] s by (auto simp: keyed_by_index_def)
qed




lemma listSnapshots_keys:
  assumes "snapshots_keyed_by_index (store (kvs r))"
    and "listSnapshots r c n MaxUint64 = (Ok snapshots, r')"
  shows "set (map (\<lambda>ss. SnapshotKey c n (ss_Index ss)) snapshots) =
           {k \<in> fst ` set (store (kvs r)). is_snapshot_key c n k}"
proof -
  let ?s = "store (kvs r)"
  let ?recs = "sort_key (\<lambda>r. key_code (fst r)) (snapshot_records c n ?s)"
  have vals: "map SnapshotVal snapshots = map snd ?recs"
    by (rule listSnapshots_lists_store [OF assms(2)])
  have sub: "set ?recs = {r \<in> set ?s. is_snapshot_key c n (fst r)}"
    by (auto simp: snapshot_records_def)
  have "list_all keyed_by_index ?recs"
    using assms(1) sub by (auto simp: snapshots_keyed_by_index_def list_all_iff)
  moreover have "list_all (\<lambda>r. is_snapshot_key c n (fst r)) ?recs"
    using sub by (auto simp: list_all_iff)
  ultimately have "map (\<lambda>ss. SnapshotKey c n (ss_Index ss)) snapshots = map fst ?recs"
    using vals by (rule keyed_snapshot_keys)
  moreover have "set (map fst ?recs) = {k \<in> fst ` set ?s. is_snapshot_key c n k}"
    using sub by (auto simp: image_iff)
  ultimately show ?thesis by simp
qed



subsection \<open>The log DB keeps every snapshot record under its own index\<close>

text \<open>
  \<^verbatim>\<open>saveSnapshot\<close> and \<^verbatim>\<open>saveRemoveNodeData\<close> compute the key of a stored snapshot
  record from the index inside the record, so they reach exactly the stored records
  when every snapshot record is stored under the index it holds. The log DB keeps its
  store so: every mutation its operations stage keeps it (\<^verbatim>\<open>saveSnapshot\<close> puts a
  snapshot under its own index; the other puts are not snapshot records), the store of
  a fresh engine is so, and \<open>saveRaftState\<close>, \<open>saveSnapshots\<close> and \<open>removeNodeData\<close>
  lead from such a store to such a store (with the plain entry manager, which stages
  entry records only).
\<close>

lemma op_keyed_simps:
  "op_keyed (Delete k)"
  "op_keyed (Put (EntryKey c n i) v)"
  "op_keyed (Put (StateKey c n) v)"
  "op_keyed (Put (MaxIndexKey c n) v)"
  "op_keyed (Put (BootstrapKey c n) v)"
  "op_keyed (Put (SnapshotKey c n (ss_Index ss)) (SnapshotVal ss))"
  by (simp_all add: op_keyed_def keyed_by_index_def)

lemma keyed_update:
  "keyed_by_index (k, v) \<Longrightarrow> list_all keyed_by_index s \<Longrightarrow> list_all keyed_by_index (AList.update k v s)"
  by (induction s) auto

lemma keyed_delete:
  "list_all keyed_by_index s \<Longrightarrow> list_all keyed_by_index (AList.delete k s)"
  by (simp add: AList.delete_eq list_all_iff)

lemma apply_batch_keyed:
  "list_all op_keyed wb \<Longrightarrow> snapshots_keyed_by_index s \<Longrightarrow>
     snapshots_keyed_by_index (apply_batch wb s)"
proof (induction wb arbitrary: s)
  case Nil
  then show ?case by (simp add: apply_batch_def)
next
  case (Cons op wb)
  have "snapshots_keyed_by_index (apply_op s op)"
    using Cons.prems
    by (cases op) (auto simp: snapshots_keyed_by_index_def op_keyed_def keyed_update keyed_delete)
  moreover have "apply_batch (op # wb) s = apply_batch wb (apply_op s op)"
    by (simp add: apply_batch_def)
  ultimately show ?case using Cons by simp
qed

lemma saveSnapshot_keyed:
  assumes "saveSnapshot r wb ud = (x, wb', r')" and "list_all op_keyed wb"
  shows "list_all op_keyed wb'"
  using assms
  by (auto simp: saveSnapshot_def saveSnapshot_loop_eq op_keyed_simps list_all_iff
      split: if_splits prod.splits result.splits)

lemma saveState_keyed:
  assumes "saveState r c n st wb ctx = (x, wb', r')" and "list_all op_keyed wb"
  shows "list_all op_keyed wb'"
  using assms
  by (auto simp: saveState_def op_keyed_simps
      split: if_splits prod.splits option.splits bool.splits)

lemma setMaxIndex_keyed:
  assumes "setMaxIndex r wb ud mi ctx = (wb', r')" and "list_all op_keyed wb"
  shows "list_all op_keyed wb'"
  using assms by (auto simp: setMaxIndex_def saveMaxIndex_def op_keyed_simps)

lemma plain_record_keyed:
  "plain_record wb c n ctx es = (mi, wb') \<Longrightarrow> list_all op_keyed wb \<Longrightarrow> list_all op_keyed wb'"
proof (induction es arbitrary: wb mi wb')
  case Nil
  then show ?case by simp
next
  case (Cons e es)
  obtain mi1 wb1 where p: "plain_record (wb @ [Put (EntryKey c n (e_Index e)) (EntryVal e)]) c n ctx es = (mi1, wb1)"
    by (cases "plain_record (wb @ [Put (EntryKey c n (e_Index e)) (EntryVal e)]) c n ctx es")
  with Cons.prems have "wb' = wb1" by simp
  moreover have "list_all op_keyed (wb @ [Put (EntryKey c n (e_Index e)) (EntryVal e)])"
    using Cons.prems(2) by (simp add: op_keyed_simps)
  ultimately show ?case using Cons.IH [OF p] by simp
qed

lemma setMaxIndex_plain:
  "setMaxIndex r wb ud mi ctx = (wb', r') \<Longrightarrow> entries r = newPlainEntries \<Longrightarrow>
     entries r' = newPlainEntries"
  by (auto simp: setMaxIndex_def)

lemma em_record_plain: "em_record newPlainEntries = plain_record"
  by (simp add: newPlainEntries_def)

lemma saveEntries_keyed:
  "saveEntries r updates wb ctx = (wb', r') \<Longrightarrow> entries r = newPlainEntries \<Longrightarrow>
     list_all op_keyed wb \<Longrightarrow> list_all op_keyed wb'"
proof (induction r updates wb ctx rule: saveEntries.induct)
  case (1 r wb ctx)
  then show ?case by simp
next
  case (2 r ud updates wb ctx)
  show ?case
    using "2.prems" "2.IH"
    apply (simp add: em_record_plain split: if_splits prod.splits)
    apply (meson plain_record_keyed setMaxIndex_keyed setMaxIndex_plain)+
    done
qed

lemma saveRaftState_loop_keyed:
  "saveRaftState_loop r wb ctx updates = (x, wb', r') \<Longrightarrow> list_all op_keyed wb \<Longrightarrow>
     list_all op_keyed wb'"
proof (induction r wb ctx updates rule: saveRaftState_loop.induct)
  case (1 r wb ctx)
  then show ?case by simp
next
  case (2 r wb ctx ud updates)
  show ?case
    using "2.prems" "2.IH"
    apply (simp split: prod.splits result.splits if_splits bool.splits)
    apply (meson saveState_keyed saveSnapshot_keyed setMaxIndex_keyed)+
    done
qed

lemma saveSnapshots_loop_keyed:
  "saveSnapshots_loop r wb toSave updates = (x, wb', t', r') \<Longrightarrow> list_all op_keyed wb \<Longrightarrow>
     list_all op_keyed wb'"
proof (induction r wb toSave updates rule: saveSnapshots_loop.induct)
  case (1 r wb toSave)
  then show ?case by simp
next
  case (2 r wb toSave ud updates)
  show ?case
    using "2.prems" "2.IH"
    apply (simp split: prod.splits result.splits if_splits bool.splits)
    apply (meson saveSnapshot_keyed)+
    done
qed

lemma CommitWriteBatch_keyed:
  "CommitWriteBatch kv wb = (x, kv') \<Longrightarrow> list_all op_keyed wb \<Longrightarrow>
     snapshots_keyed_by_index (store kv) \<Longrightarrow> snapshots_keyed_by_index (store kv')"
  by (auto simp: CommitWriteBatch_def apply_batch_keyed split: prod.splits option.splits
      dest!: engine_call_frame)


lemma saveSnapshots_loop_store:
  "saveSnapshots_loop r wb toSave updates = (x, wb', t', r') \<Longrightarrow> store (kvs r') = store (kvs r)"
proof (induction r wb toSave updates rule: saveSnapshots_loop.induct)
  case (1 r wb toSave)
  then show ?case by simp
next
  case (2 r wb toSave ud updates)
  show ?case
    using "2.prems" "2.IH"
    apply (simp split: prod.splits result.splits if_splits bool.splits)
    apply (auto dest!: saveSnapshot_frame)
    done
qed

lemma saveSnapshots_keeps_keyed:
  assumes "snapshots_keyed_by_index (store (kvs r))"
  shows "snapshots_keyed_by_index (store (kvs (snd (saveSnapshots r updates))))"
proof -
  obtain x wb1 t r1 where l: "saveSnapshots_loop r [] False updates = (x, wb1, t, r1)"
    by (cases "saveSnapshots_loop r [] False updates")
  have k: "list_all op_keyed wb1"
    by (rule saveSnapshots_loop_keyed [OF l]) simp
  have s: "snapshots_keyed_by_index (store (kvs r1))"
    using saveSnapshots_loop_store [OF l] assms by simp
  show ?thesis
  proof (cases "x = None \<and> t")
    case True
    obtain y kv' where c: "CommitWriteBatch (kvs r1) wb1 = (y, kv')"
      by (cases "CommitWriteBatch (kvs r1) wb1")
    from True l c have "snd (saveSnapshots r updates) = r1\<lparr>kvs := kv'\<rparr>"
      by (simp add: saveSnapshots_def getWriteBatch_def)
    with CommitWriteBatch_keyed [OF c k s] show ?thesis by simp
  next
    case False
    with l have "snd (saveSnapshots r updates) = r1"
      by (cases x) (auto simp: saveSnapshots_def getWriteBatch_def)
    with s show ?thesis by simp
  qed
qed

lemma saveRaftState_keeps_keyed:
  assumes "entries r = newPlainEntries"
    and "list_all op_keyed (fst (getWriteBatch ctx))"
    and "snapshots_keyed_by_index (store (kvs r))"
  shows "snapshots_keyed_by_index (store (kvs (fst (snd (saveRaftState r updates ctx)))))"
proof -
  obtain wb0 ctx0 where g: "getWriteBatch ctx = (wb0, ctx0)"
    by (cases "getWriteBatch ctx")
  obtain y wb1 r1 where l: "saveRaftState_loop r wb0 ctx0 updates = (y, wb1, r1)"
    by (cases "saveRaftState_loop r wb0 ctx0 updates")
  note lf = saveRaftState_loop_frame [OF l]
  have k1: "list_all op_keyed wb1"
    using saveRaftState_loop_keyed [OF l] assms(2) g by simp
  have s1: "snapshots_keyed_by_index (store (kvs r1))"
    using lf assms(3) by simp
  show ?thesis
  proof (cases y)
    case (Some z)
    with g l have "fst (snd (saveRaftState r updates ctx)) = r1"
      by (simp add: saveRaftState_def)
    with s1 show ?thesis by simp
  next
    case None
    obtain wb2 r2 where e: "saveEntries r1 updates wb1 ctx0 = (wb2, r2)"
      by (cases "saveEntries r1 updates wb1 ctx0")
    have k2: "list_all op_keyed wb2"
      using saveEntries_keyed [OF e] lf assms(1) k1 by simp
    have s2: "snapshots_keyed_by_index (store (kvs r2))"
      using saveEntries_frame [OF e] s1 by simp
    show ?thesis
    proof (cases "0 < Count wb2")
      case False
      with g l None e have "fst (snd (saveRaftState r updates ctx)) = r2"
        by (simp add: saveRaftState_def)
      with s2 show ?thesis by simp
    next
      case True
      obtain z kv' where c: "CommitWriteBatch (kvs r2) wb2 = (z, kv')"
        by (cases "CommitWriteBatch (kvs r2) wb2")
      with g l None e True have "fst (snd (saveRaftState r updates ctx)) = r2\<lparr>kvs := kv'\<rparr>"
        by (simp add: saveRaftState_def)
      with CommitWriteBatch_keyed [OF c k2 s2] show ?thesis by simp
    qed
  qed
qed

lemma BulkRemoveEntries_keyed:
  "BulkRemoveEntries kv fk lk = (x, kv') \<Longrightarrow> snapshots_keyed_by_index (store kv) \<Longrightarrow>
     snapshots_keyed_by_index (store kv')"
  by (auto simp: BulkRemoveEntries_def snapshots_keyed_by_index_def list_all_iff
      split: prod.splits option.splits dest!: engine_call_frame)

lemma removeNodeData_keeps_keyed:
  assumes "entries r = newPlainEntries"
    and "snapshots_keyed_by_index (store (kvs r))"
  shows "snapshots_keyed_by_index (store (kvs (snd (removeNodeData r c n))))"
proof -
  obtain x r1 where l: "listSnapshots r c n MaxUint64 = (x, r1)"
    by (cases "listSnapshots r c n MaxUint64")
  note lf = listSnapshots_frame [OF l]
  have s1: "snapshots_keyed_by_index (store (kvs r1))"
    using lf assms(2) by simp
  show ?thesis
  proof (cases x)
    case (Ok snapshots)
    let ?wb = "saveRemoveNodeData [] snapshots c n"
    have k: "list_all op_keyed ?wb"
      by (simp add: saveRemoveNodeData_eq list_all_iff op_keyed_simps)
    obtain y kv2 where cm: "CommitWriteBatch (kvs r1) ?wb = (y, kv2)"
      by (cases "CommitWriteBatch (kvs r1) ?wb")
    note s2 = CommitWriteBatch_keyed [OF cm k s1]
    show ?thesis
    proof (cases y)
      case (Ok u)
      obtain z kv3 where b: "BulkRemoveEntries kv2 (EntryKey c n 0) (EntryKey c n MaxUint64) = (z, kv3)"
        by (cases "BulkRemoveEntries kv2 (EntryKey c n 0) (EntryKey c n MaxUint64)")
      from l \<open>x = Ok snapshots\<close> cm Ok b lf assms(1)
      have "kvs (snd (removeNodeData r c n)) = kv3"
        by (simp add: removeNodeData_def getWriteBatch_def removeEntriesTo_def
            newPlainEntries_def plain_rangedOp_def)
      with BulkRemoveEntries_keyed [OF b s2] show ?thesis by simp
    next
      case (Err e)
      with l \<open>x = Ok snapshots\<close> cm have "kvs (snd (removeNodeData r c n)) = kv2"
        by (simp add: removeNodeData_def getWriteBatch_def)
      with s2 show ?thesis by simp
    next
      case (Panic p)
      with l \<open>x = Ok snapshots\<close> cm have "kvs (snd (removeNodeData r c n)) = kv2"
        by (simp add: removeNodeData_def getWriteBatch_def)
      with s2 show ?thesis by simp
    qed
  next
    case (Err e)
    with l have "snd (removeNodeData r c n) = r1"
      by (simp add: removeNodeData_def getWriteBatch_def)
    with s1 show ?thesis by simp
  next
    case (Panic p)
    with l have "snd (removeNodeData r c n) = r1"
      by (simp add: removeNodeData_def getWriteBatch_def)
    with s1 show ?thesis by simp
  qed
qed

lemma fresh_store_keyed: "snapshots_keyed_by_index []"
  by (simp add: snapshots_keyed_by_index_def)

subsection \<open>The snapshot records a save leaves\<close>





subsection \<open>Reading after the removal\<close>

lemma in_range_all_entries:
  "in_range (EntryKey c n 0) (EntryKey c n MaxUint64) True k \<longleftrightarrow> (\<exists>i. k = EntryKey c n i)"
proof -
  have m: "MaxUint64 = - 1" by (simp add: MaxUint64_def)
  have "\<And>i. i \<le> MaxUint64" unfolding m by (rule word_n1_ge)
  then show ?thesis
    by (cases k) (auto simp: in_range_def)
qed

lemma removeNodeData_Ok:
  assumes "entries r = newPlainEntries"
    and "removeNodeData r c n = (Ok (), r')"
  shows "\<exists>snapshots r1.
           listSnapshots r c n MaxUint64 = (Ok snapshots, r1) \<and>
           store (kvs r') =
             filter (\<lambda>x. \<not> in_range (EntryKey c n 0) (EntryKey c n MaxUint64) True (fst x))
               (apply_batch (saveRemoveNodeData [] snapshots c n) (store (kvs r))) \<and>
           cache_getMaxIndex (cs r') c n = Some 0 \<and> entries r' = newPlainEntries"
proof -
  from assms(2) obtain snapshots r1 where
    l: "listSnapshots r c n MaxUint64 = (Ok snapshots, r1)"
    by (cases "listSnapshots r c n MaxUint64")
       (auto simp: removeNodeData_def getWriteBatch_def split: result.splits)
  note f = listSnapshots_frame [OF l]
  from assms l f have
    "store (kvs r') =
       filter (\<lambda>x. \<not> in_range (EntryKey c n 0) (EntryKey c n MaxUint64) True (fst x))
         (apply_batch (saveRemoveNodeData [] snapshots c n) (store (kvs r)))"
    "cache_getMaxIndex (cs r') c n = Some 0" "entries r' = newPlainEntries"
    by (auto simp: removeNodeData_def getWriteBatch_def CommitWriteBatch_def
        removeEntriesTo_def newPlainEntries_def plain_rangedOp_def BulkRemoveEntries_def
        cache_setMaxIndex_def cache_getMaxIndex_def
        split: prod.splits option.splits result.splits dest!: engine_call_frame)
  with l show ?thesis by blast
qed

lemma removed_store_keys:
  assumes "snapshots_keyed_by_index s"
    and "set (map (\<lambda>ss. SnapshotKey c n (ss_Index ss)) snapshots) =
           {k \<in> fst ` set s. is_snapshot_key c n k}"
    and "k \<in> fst ` set
           (filter (\<lambda>x. \<not> in_range (EntryKey c n 0) (EntryKey c n MaxUint64) True (fst x))
              (apply_batch (saveRemoveNodeData [] snapshots c n) s))"
  shows "k \<noteq> StateKey c n \<and> k \<noteq> BootstrapKey c n \<and> k \<noteq> MaxIndexKey c n \<and>
         \<not> is_snapshot_key c n k \<and> (\<forall>i. k \<noteq> EntryKey c n i)"
proof -
  let ?ks = "[StateKey c n, BootstrapKey c n, MaxIndexKey c n] @
             map (\<lambda>ss. SnapshotKey c n (ss_Index ss)) snapshots"
  have "apply_batch (saveRemoveNodeData [] snapshots c n) s = filter (\<lambda>r. fst r \<notin> set ?ks) s"
    by (simp only: saveRemoveNodeData_eq append_Nil apply_batch_deletes)
  with assms(3) have k: "k \<in> fst ` set s" "k \<notin> set ?ks"
    "\<not> in_range (EntryKey c n 0) (EntryKey c n MaxUint64) True k"
    by auto
  from k(3) have "\<forall>i. k \<noteq> EntryKey c n i"
    by (simp add: in_range_all_entries)
  moreover from k(1,2) assms(2) have "\<not> is_snapshot_key c n k"
    by auto
  moreover from k(2) have "k \<noteq> StateKey c n \<and> k \<noteq> BootstrapKey c n \<and> k \<noteq> MaxIndexKey c n"
    by auto
  ultimately show ?thesis by blast
qed

lemma map_of_absent: "k \<notin> fst ` set s \<Longrightarrow> map_of s k = None"
  by (simp add: map_of_eq_None_iff)

lemma listSnapshots_none:
  assumes "faults (kvs r) = []" and "\<forall>k \<in> fst ` set (store (kvs r)). \<not> is_snapshot_key c n k"
  shows "fst (listSnapshots r c n MaxUint64) = Ok []"
proof -
  have "filter (\<lambda>x. in_range (SnapshotKey c n 0) (SnapshotKey c n MaxUint64) True (fst x))
          (store (kvs r)) = []"
    using assms(2) unfolding in_range_snapshots filter_empty_conv by blast
  with assms(1) show ?thesis
    by (simp add: listSnapshots_def IterateValue_def engine_call_def)
qed

text \<open>
  C8, as amended. On a store where every snapshot record is stored under its own index
  (the log DB keeps its store so, see above), after a successful \<open>removeNodeData\<close>
  with the plain entry manager, every read for the replica on a log DB with that store
  and that cached max index, on an engine that does not fail, gives: \<open>ErrNoSavedLog\<close>
  for the state, \<open>ErrNoBootstrapInfo\<close> for the bootstrap record, the empty snapshot
  with no error for the snapshot, and the caller's entries and size unchanged, with no
  error, for the entry iteration.
\<close>

theorem reads_after_removeNodeData:
  assumes "entries r = newPlainEntries"
    and "snapshots_keyed_by_index (store (kvs r))"
    and "removeNodeData r clusterID nodeID = (Ok (), r')"
    and "store (kvs r2) = store (kvs r')" and "entries r2 = entries r'"
    and "cache_getMaxIndex (cs r2) clusterID nodeID = cache_getMaxIndex (cs r') clusterID nodeID"
    and "faults (kvs r2) = []"
  shows "fst (getState r2 clusterID nodeID) = Err ErrNoSavedLog \<and>
         fst (getBootstrapInfo r2 clusterID nodeID) = Err ErrNoBootstrapInfo \<and>
         fst (getSnapshot r2 clusterID nodeID) = Ok emptySnapshot \<and>
         fst (iterateEntries r2 ents sz clusterID nodeID low high maxSize) = Ok (ents, sz)"
proof -
  from removeNodeData_Ok [OF assms(1) assms(3)] obtain snapshots r1 where
    l: "listSnapshots r clusterID nodeID MaxUint64 = (Ok snapshots, r1)"
    and s: "store (kvs r') =
             filter (\<lambda>x. \<not> in_range (EntryKey clusterID nodeID 0) (EntryKey clusterID nodeID MaxUint64) True (fst x))
               (apply_batch (saveRemoveNodeData [] snapshots clusterID nodeID) (store (kvs r)))"
    and c: "cache_getMaxIndex (cs r') clusterID nodeID = Some 0"
    and e: "entries r' = newPlainEntries"
    by blast
  note ks = listSnapshots_keys [OF assms(2) l]
  have keys: "\<And>k. k \<in> fst ` set (store (kvs r2)) \<Longrightarrow>
      k \<noteq> StateKey clusterID nodeID \<and> k \<noteq> BootstrapKey clusterID nodeID \<and>
      k \<noteq> MaxIndexKey clusterID nodeID \<and>
      \<not> is_snapshot_key clusterID nodeID k \<and> (\<forall>i. k \<noteq> EntryKey clusterID nodeID i)"
    unfolding assms(4) s by (rule removed_store_keys [OF assms(2) ks])
  have st: "map_of (store (kvs r2)) (StateKey clusterID nodeID) = None"
    using keys by (intro map_of_absent) blast
  have bs: "map_of (store (kvs r2)) (BootstrapKey clusterID nodeID) = None"
    using keys by (intro map_of_absent) blast
  have g1: "fst (getState r2 clusterID nodeID) = Err ErrNoSavedLog"
    using st assms(7)
    by (simp add: getState_def GetValue_def engine_call_def getState_op_def split: prod.splits)
  have g2: "fst (getBootstrapInfo r2 clusterID nodeID) = Err ErrNoBootstrapInfo"
    using bs assms(7)
    by (simp add: getBootstrapInfo_def GetValue_def engine_call_def getBootstrapInfo_op_def
        split: prod.splits)
  have "fst (listSnapshots r2 clusterID nodeID MaxUint64) = Ok []"
    using assms(7) keys by (intro listSnapshots_none) blast+
  then have g3: "fst (getSnapshot r2 clusterID nodeID) = Ok emptySnapshot"
    by (auto simp: getSnapshot_def split: prod.splits result.splits)
  have m: "getMaxIndex r2 clusterID nodeID = (Ok 0, r2)"
    using c assms(6) by (simp add: getMaxIndex_def)
  have "fst (plain_iterate (kvs r2) ents 0 sz clusterID nodeID low high maxSize) = Ok (ents, sz)"
    using assms(7) keys by (intro plain_iterate_nothing_in_range) blast+
  with m e assms(5) have g4: "fst (iterateEntries r2 ents sz clusterID nodeID low high maxSize) = Ok (ents, sz)"
    by (auto simp: iterateEntries_def newPlainEntries_def Wrapf_def split: prod.splits)
  from g1 g2 g3 g4 show ?thesis by blast
qed

lemmas removal_eval = ex_db_full_def ex_store_def ex_defs removeNodeData_def getWriteBatch_def
  listSnapshots_def IterateValue_def engine_call_def in_range_def MaxUint64_def
  listSnapshots_op_def saveRemoveNodeData_def CommitWriteBatch_def apply_batch_def
  removeEntriesTo_def newPlainEntries_def plain_rangedOp_def BulkRemoveEntries_def
  cache_setMaxIndex_def newCache_def

text \<open>
  C8. The claim: after \<open>removeNodeData\<close> the snapshot read returns the not-found error
  kind. \<open>getSnapshot\<close> has no such error: when no snapshot is listed it returns the
  empty snapshot and a nil error. At the log DB whose store holds the records of
  replica (1, 1): the removal succeeds and empties the store, and \<open>getSnapshot\<close> then
  returns the empty snapshot, not an error. And \<open>removeNodeData\<close> deletes a snapshot
  record under the index found inside it: on a store that holds a snapshot of index 1
  under the key of index 2, the removal succeeds and \<open>getSnapshot\<close> still returns
  that snapshot.
\<close>

theorem getSnapshot_after_removal_counterexample:
  "fst (getSnapshot ex_db_full 1 1) =
     Ok \<lparr>ss_Index = 3, ss_Term = 1, ss_Filepath = ''snapshot-3''\<rparr> \<and>
   fst (removeNodeData ex_db_full 1 1) = Ok () \<and>
   store (kvs (snd (removeNodeData ex_db_full 1 1))) = [] \<and>
   fst (getSnapshot (snd (removeNodeData ex_db_full 1 1)) 1 1) = Ok emptySnapshot \<and>
   \<not> snapshots_keyed_by_index (store (kvs ex_db_miskeyed)) \<and>
   fst (removeNodeData ex_db_miskeyed 1 1) = Ok () \<and>
   fst (getSnapshot (snd (removeNodeData ex_db_miskeyed 1 1)) 1 1) =
     Ok \<lparr>ss_Index = 1, ss_Term = 1, ss_Filepath = ''snapshot-1''\<rparr>"
  by (simp add: removal_eval getSnapshot_def ex_db_miskeyed_def snapshots_keyed_by_index_def
      keyed_by_index_def listSnapshots_op_def cache_setSnapshotIndex_def)

theorem reads_after_removeNodeData_witness:
  "entries ex_db_full = newPlainEntries \<and>
   snapshots_keyed_by_index (store (kvs ex_db_full)) \<and>
   fst (removeNodeData ex_db_full 1 1) = Ok () \<and>
   faults (kvs (snd (removeNodeData ex_db_full 1 1))) = [] \<and>
   fst (getState ex_db_full 1 1) = Ok \<lparr>st_Term = 2, st_Vote = 1, st_Commit = 4\<rparr> \<and>
   fst (getState (snd (removeNodeData ex_db_full 1 1)) 1 1) = Err ErrNoSavedLog \<and>
   fst (getBootstrapInfo (snd (removeNodeData ex_db_full 1 1)) 1 1) = Err ErrNoBootstrapInfo \<and>
   fst (getSnapshot (snd (removeNodeData ex_db_full 1 1)) 1 1) = Ok emptySnapshot \<and>
   fst (iterateEntries (snd (removeNodeData ex_db_full 1 1)) [] 0 1 1 1 10 100) = Ok ([], 0)"
proof -
  have a: "entries ex_db_full = newPlainEntries"
    by (simp add: ex_db_full_def ex_defs)
  have b: "snapshots_keyed_by_index (store (kvs ex_db_full))"
    by (simp add: ex_db_full_def ex_store_def ex_defs snapshots_keyed_by_index_def keyed_by_index_def)
  have c: "fst (removeNodeData ex_db_full 1 1) = Ok ()"
    by (simp add: removal_eval)
  then have d: "removeNodeData ex_db_full 1 1 = (Ok (), snd (removeNodeData ex_db_full 1 1))"
    by (metis prod.collapse)
  have e: "faults (kvs (snd (removeNodeData ex_db_full 1 1))) = []"
    by (simp add: removal_eval)
  have f: "fst (getState ex_db_full 1 1) = Ok \<lparr>st_Term = 2, st_Vote = 1, st_Commit = 4\<rparr>"
    by (simp add: ex_db_full_def ex_store_def ex_defs getState_def GetValue_def engine_call_def
        getState_op_def)
  from reads_after_removeNodeData [OF a b d refl refl refl e, of "[]" 0 1 10 100] a b c e f
  show ?thesis by simp
qed

end
